theory Spec2Isabelle
  imports Complex_Main
begin

section \<open>Learning-path progression of the reading platform\<close>

text \<open>
  The development embeds the two functions of \<^verbatim>\<open>api.py\<close> that make up the
  learning-path subsystem, \<^verbatim>\<open>generate_learning_path\<close> and
  \<^verbatim>\<open>update_path_activity\<close>, together with the three tables of
  \<^verbatim>\<open>models.py\<close> they read and write.
\<close>

subsection \<open>Python numbers\<close>

text \<open>
  The progress percentage is computed as
  \<^verbatim>\<open>int((completed_activities / total_activities) * 100)\<close>: a true division of two
  integers (a binary64 float, correctly rounded), a float multiplication by \<open>100\<close>
  (correctly rounded again) and a truncation to an integer. The operands are counts of rows,
  non-negative integers with a positive divisor, so only non-negative finite floats occur.
  Such a float is kept as a pair \<open>(m, e)\<close> of a significand of at most 53 bits and an
  exponent, standing for \<open>m * 2 ^ e\<close>. The exponent
  range of binary64 (no overflow, no subnormal numbers) is not modelled: counts of database
  rows stay far inside it.
\<close>

type_synonym pyfloat = "int \<times> int"

function bit_length :: "int \<Rightarrow> nat" where
  "bit_length n = (if n \<le> 0 then 0 else Suc (bit_length (n div 2)))"
  by pat_completeness auto
termination
  by (relation "measure nat") auto

declare bit_length.simps [simp del]

definition round_half_even :: "int \<Rightarrow> int \<Rightarrow> int" where
  \<comment> \<open>the integer nearest to \<open>n / d\<close>, a tie going to the even neighbour\<close>
  "round_half_even n d =
     (let q = n div d; r = n mod d
      in if 2 * r < d then q
         else if d < 2 * r then q + 1
         else if even q then q else q + 1)"

definition nearest_float :: "int \<Rightarrow> int \<Rightarrow> int \<Rightarrow> pyfloat" where
  \<comment> \<open>the float nearest to \<open>(n / d) * 2 ^ k\<close>, for \<open>d > 0\<close>: round to nearest, ties to even,
      53 bits of significand\<close>
  "nearest_float n d k =
     (if n \<le> 0 then (0, 0)
      else
        let s = int (bit_length n) - int (bit_length d);
            e = (if n * 2 ^ nat (53 - s) < 2 ^ 53 * (d * 2 ^ nat (s - 53))
                 then s - 53 else s - 52)
        in (round_half_even (n * 2 ^ nat (- e)) (d * 2 ^ nat e), e + k))"

definition float_of_int :: "int \<Rightarrow> pyfloat" where
  "float_of_int n = nearest_float n 1 0"

definition true_divide :: "int \<Rightarrow> int \<Rightarrow> pyfloat" where
  \<comment> \<open>Python's \<open>a / b\<close> on integers, for \<open>b > 0\<close>\<close>
  "true_divide a b = nearest_float a b 0"

definition float_mul :: "pyfloat \<Rightarrow> pyfloat \<Rightarrow> pyfloat" where
  "float_mul x y = nearest_float (fst x * fst y) 1 (snd x + snd y)"

definition int_of_float :: "pyfloat \<Rightarrow> int" where
  \<comment> \<open>Python's \<open>int(x)\<close>: truncation, here of a non-negative float\<close>
  "int_of_float x =
     (if 0 \<le> snd x then fst x * 2 ^ nat (snd x)
      else fst x div 2 ^ nat (- snd x))"

definition percentage :: "int \<Rightarrow> int \<Rightarrow> int" where
  \<comment> \<open>\<^verbatim>\<open>int((completed_activities / total_activities) * 100)\<close>\<close>
  "percentage completed_activities total_activities =
     int_of_float (float_mul (true_divide completed_activities total_activities)
                             (float_of_int 100))"

fun str_nat :: "nat \<Rightarrow> string" where
  "str_nat n =
     (if n < 10 then [''0123456789'' ! n]
      else str_nat (n div 10) @ [''0123456789'' ! (n mod 10)])"

declare str_nat.simps [simp del]

definition str_int :: "int \<Rightarrow> string" where
  \<comment> \<open>Python's \<open>str\<close> of an integer, as an f-string interpolates it\<close>
  "str_int i = (if i < 0 then CHR ''-'' # str_nat (nat (- i)) else str_nat (nat i))"


subsection \<open>The tables\<close>

text \<open>
  The rows of \<^verbatim>\<open>child_profiles\<close>, \<^verbatim>\<open>learning_paths\<close> and
  \<^verbatim>\<open>path_activities\<close>, with the columns of \<^verbatim>\<open>models.py\<close>. Columns called
  \<^verbatim>\<open>id\<close>, \<^verbatim>\<open>title\<close>, \<^verbatim>\<open>description\<close> and \<^verbatim>\<open>created_at\<close> occur in
  several tables and carry the table's name here. Timestamps are natural numbers; the
  clock reading \<^verbatim>\<open>datetime.utcnow()\<close> is an argument of the operations.
\<close>

record ChildProfile =
  profile_id :: nat
  user_id :: nat
  name :: string
  age :: int
  reading_level :: string

record LearningPath =
  path_id :: nat
  child_profile_id :: nat
  path_title :: string
  path_description :: string
  current_stage :: int
  total_stages :: int
  progress_percentage :: int
  path_created_at :: nat
  last_updated :: nat

record PathActivity =
  activity_id :: nat
  learning_path_id :: nat
  activity_title :: string
  activity_description :: string
  activity_type :: string
  content_url :: "string option"
  stage_number :: int
  status :: string
  is_completed :: bool
  activity_created_at :: nat

record database =
  child_profiles :: "ChildProfile list"
  learning_paths :: "LearningPath list"
  path_activities :: "PathActivity list"

definition next_id :: "nat list \<Rightarrow> nat" where
  \<comment> \<open>the integer primary key the database gives to a new row: one more than the largest
      key of the table\<close>
  "next_id ids = Suc (fold max ids 0)"

definition get_profile :: "nat \<Rightarrow> database \<Rightarrow> ChildProfile option" where
  \<comment> \<open>\<^verbatim>\<open>ChildProfile.query.get(id)\<close>\<close>
  "get_profile k db = find (\<lambda>c. profile_id c = k) (child_profiles db)"

definition get_path :: "nat \<Rightarrow> database \<Rightarrow> LearningPath option" where
  \<comment> \<open>\<^verbatim>\<open>LearningPath.query.get(id)\<close>\<close>
  "get_path k db = find (\<lambda>p. path_id p = k) (learning_paths db)"

definition get_activity :: "nat \<Rightarrow> database \<Rightarrow> PathActivity option" where
  \<comment> \<open>\<^verbatim>\<open>PathActivity.query.get(id)\<close>\<close>
  "get_activity k db = find (\<lambda>a. activity_id a = k) (path_activities db)"

definition count_completed :: "nat \<Rightarrow> database \<Rightarrow> nat" where
  \<comment> \<open>\<^verbatim>\<open>PathActivity.query.filter_by(learning_path_id=k, is_completed=True).count()\<close>\<close>
  "count_completed k db =
     length (filter (\<lambda>a. learning_path_id a = k \<and> is_completed a) (path_activities db))"

definition count_total :: "nat \<Rightarrow> database \<Rightarrow> nat" where
  \<comment> \<open>\<^verbatim>\<open>PathActivity.query.filter_by(learning_path_id=k).count()\<close>\<close>
  "count_total k db = length (filter (\<lambda>a. learning_path_id a = k) (path_activities db))"

definition update_activity ::
  "nat \<Rightarrow> (PathActivity \<Rightarrow> PathActivity) \<Rightarrow> database \<Rightarrow> database" where
  \<comment> \<open>the \<^verbatim>\<open>UPDATE path_activities SET ... WHERE id = k\<close> of a flush\<close>
  "update_activity k f db =
     db\<lparr>path_activities := map (\<lambda>a. if activity_id a = k then f a else a) (path_activities db)\<rparr>"

definition update_path ::
  "nat \<Rightarrow> (LearningPath \<Rightarrow> LearningPath) \<Rightarrow> database \<Rightarrow> database" where
  \<comment> \<open>the \<^verbatim>\<open>UPDATE learning_paths SET ... WHERE id = k\<close> of a flush\<close>
  "update_path k f db =
     db\<lparr>learning_paths := map (\<lambda>p. if path_id p = k then f p else p) (learning_paths db)\<rparr>"

subsection \<open>Generating a learning path\<close>

record activity_data =
  ad_title :: string
  ad_description :: string
  ad_activity_type :: string
  ad_stage_number :: int

definition activities :: "activity_data list" where
  \<comment> \<open>the list \<^verbatim>\<open>activities\<close> of \<^verbatim>\<open>generate_learning_path\<close>\<close>
  "activities =
     [\<lparr>ad_title = ''Reading Assessment'',
       ad_description = ''Complete an initial reading assessment to identify your strengths and areas for improvement.'',
       ad_activity_type = ''assessment'', ad_stage_number = 1\<rparr>,
      \<lparr>ad_title = ''Vocabulary Building'',
       ad_description = ''Practice with new words to expand your vocabulary.'',
       ad_activity_type = ''exercise'', ad_stage_number = 2\<rparr>,
      \<lparr>ad_title = ''Guided Reading'',
       ad_description = ''Read a story with interactive guidance to help with comprehension.'',
       ad_activity_type = ''reading'', ad_stage_number = 3\<rparr>,
      \<lparr>ad_title = ''Comprehension Quiz'',
       ad_description = ''Answer questions about the story to check your understanding.'',
       ad_activity_type = ''quiz'', ad_stage_number = 4\<rparr>,
      \<lparr>ad_title = ''Creative Response'',
       ad_description = ''Create your own story or drawing inspired by what you read.'',
       ad_activity_type = ''creative'', ad_stage_number = 5\<rparr>]"

definition add_activity :: "nat \<Rightarrow> nat \<Rightarrow> database \<Rightarrow> activity_data \<Rightarrow> database" where
  \<comment> \<open>the body of the loop: a new \<^verbatim>\<open>PathActivity\<close> row, its \<^verbatim>\<open>status\<close>,
      \<^verbatim>\<open>is_completed\<close> and \<^verbatim>\<open>created_at\<close> from the column defaults\<close>
  "add_activity pid now db d =
     db\<lparr>path_activities := path_activities db @
        [\<lparr>activity_id = next_id (map activity_id (path_activities db)),
          learning_path_id = pid,
          activity_title = ad_title d,
          activity_description = ad_description d,
          activity_type = ad_activity_type d,
          content_url = None,
          stage_number = ad_stage_number d,
          status = ''pending'',
          is_completed = False,
          activity_created_at = now\<rparr>]\<rparr>"

definition generate_learning_path ::
  "ChildProfile \<Rightarrow> nat \<Rightarrow> database \<Rightarrow> LearningPath \<times> database" where
  "generate_learning_path profile now db =
     (let path = \<lparr>path_id = next_id (map path_id (learning_paths db)),
                  child_profile_id = profile_id profile,
                  path_title = ''Personalized Reading Journey for '' @ name profile,
                  path_description = ''A customized learning path designed for a ''
                     @ str_int (age profile) @ ''-year-old reader at ''
                     @ reading_level profile @ '' level.'',
                  current_stage = 1,
                  total_stages = 5,
                  progress_percentage = 0,
                  path_created_at = now,
                  last_updated = now\<rparr>;
          db1 = db\<lparr>learning_paths := learning_paths db @ [path]\<rparr>
      in (path, foldl (add_activity (path_id path) now) db1 activities))"

subsection \<open>Updating an activity\<close>

text \<open>
  The request body is a JSON object, read as a dictionary from keys to JSON values. The
  handler answers \<open>404\<close> when the activity does not exist and \<open>403\<close> when the profile
  belongs to another user; it fails (the attribute access on \<^verbatim>\<open>None\<close> raises) when the
  path or the profile is missing. In every other case it commits and answers \<open>200\<close> with
  the activity.
\<close>

datatype json = JNull | JBool bool | JNumber int | JString string
  | JArray "json list" | JObject "(string \<times> json) list"

datatype failure = NotFound | Unauthorized | AttributeError

fun json_in :: "json \<Rightarrow> string list \<Rightarrow> bool" where
  \<comment> \<open>\<^verbatim>\<open>v in [...]\<close> for a list of strings: only an equal string is found\<close>
  "json_in (JString s) xs = (s \<in> set xs)"
| "json_in _ xs = False"

fun json_str :: "json \<Rightarrow> string" where
  "json_str (JString s) = s"
| "json_str _ = []"

definition recompute_progress :: "nat \<Rightarrow> nat \<Rightarrow> nat \<Rightarrow> LearningPath \<Rightarrow> LearningPath" where
  \<comment> \<open>\<^verbatim>\<open>if total_activities > 0: path.progress_percentage = ...; path.last_updated = ...\<close>\<close>
  "recompute_progress completed_activities total_activities now path =
     (if total_activities > 0
      then path\<lparr>progress_percentage :=
                   percentage (int completed_activities) (int total_activities),
                last_updated := now\<rparr>
      else path)"

definition apply_status ::
  "PathActivity \<Rightarrow> LearningPath \<Rightarrow> (string \<rightharpoonup> json) \<Rightarrow> nat \<Rightarrow> database
     \<Rightarrow> PathActivity \<times> database" where
  \<comment> \<open>the block under \<^verbatim>\<open># Update status\<close>, on the loaded \<^verbatim>\<open>activity\<close> and
      \<^verbatim>\<open>path\<close>: the activity object with its new attributes and the database after the
      commit. The two counts are queries; the session flushes before a query, so they see
      the activity's new columns.\<close>
  "apply_status activity path data now db =
     (case data ''status'' of
        None \<Rightarrow> (activity, db)
      | Some v \<Rightarrow>
          if \<not> json_in v [''pending'', ''in-progress'', ''completed''] then (activity, db)
          else if v \<noteq> JString ''completed'' then
            (activity\<lparr>status := json_str v\<rparr>,
             update_activity (activity_id activity) (\<lambda>a. a\<lparr>status := json_str v\<rparr>) db)
          else
            let activity' = activity\<lparr>status := json_str v, is_completed := True\<rparr>;
                db1 = update_activity (activity_id activity)
                        (\<lambda>a. a\<lparr>status := json_str v, is_completed := True\<rparr>) db
            in if current_stage path \<noteq> stage_number activity then (activity', db1)
               else
                 let stage = (if current_stage path < total_stages path
                              then current_stage path + 1 else current_stage path);
                     completed_activities = count_completed (path_id path) db1;
                     total_activities = count_total (path_id path) db1
                 in (activity',
                     update_path (path_id path)
                       (\<lambda>p. recompute_progress completed_activities total_activities now
                              (p\<lparr>current_stage := stage\<rparr>)) db1))"

definition update_path_activity ::
  "nat \<Rightarrow> nat \<Rightarrow> (string \<rightharpoonup> json) \<Rightarrow> nat \<Rightarrow> database
     \<Rightarrow> failure + PathActivity \<times> database" where
  "update_path_activity aid current_user_id data now db =
     (case get_activity aid db of
        None \<Rightarrow> Inl NotFound
      | Some activity \<Rightarrow>
          (case get_path (learning_path_id activity) db of
             None \<Rightarrow> Inl AttributeError
           | Some path \<Rightarrow>
               (case get_profile (child_profile_id path) db of
                  None \<Rightarrow> Inl AttributeError
                | Some profile \<Rightarrow>
                    if user_id profile \<noteq> current_user_id then Inl Unauthorized
                    else Inr (apply_status activity path data now db))))"

definition status_change :: "(string \<rightharpoonup> json) \<Rightarrow> PathActivity \<Rightarrow> PathActivity" where
  \<comment> \<open>the assignments of \<^verbatim>\<open>apply_status\<close> to the attributes of an activity, taken alone\<close>
  "status_change data a =
     (case data ''status'' of
        None \<Rightarrow> a
      | Some v \<Rightarrow>
          if \<not> json_in v [''pending'', ''in-progress'', ''completed''] then a
          else if v \<noteq> JString ''completed'' then a\<lparr>status := json_str v\<rparr>
          else a\<lparr>status := json_str v, is_completed := True\<rparr>)"

definition frontier_completion ::
  "PathActivity \<Rightarrow> LearningPath \<Rightarrow> (string \<rightharpoonup> json) \<Rightarrow> bool" where
  \<comment> \<open>the two tests that guard the update of the path\<close>
  "frontier_completion activity path data =
     (data ''status'' = Some (JString ''completed'') \<and>
      current_stage path = stage_number activity)"

subsection \<open>Sequences of operations and consistent databases\<close>

text \<open>
  The subsystem has two operations: generating a path for a profile, and a request to the
  update endpoint (activity id, user, body, clock reading). A request that fails leaves
  the database as it was.
\<close>

datatype operation =
  Generate ChildProfile nat
| Update nat nat "string \<rightharpoonup> json" nat

fun perform :: "database \<Rightarrow> operation \<Rightarrow> database" where
  "perform db (Generate profile now) = snd (generate_learning_path profile now db)"
| "perform db (Update aid uid data now) =
     (case update_path_activity aid uid data now db of
        Inl _ \<Rightarrow> db
      | Inr (_, db') \<Rightarrow> db')"

definition perform_all :: "operation list \<Rightarrow> database \<Rightarrow> database" where
  "perform_all ops db = foldl perform db ops"

definition primary_keys :: "database \<Rightarrow> bool" where
  \<comment> \<open>\<^verbatim>\<open>primary_key=True\<close> on the \<^verbatim>\<open>id\<close> columns\<close>
  "primary_keys db =
     (distinct (map profile_id (child_profiles db)) \<and>
      distinct (map path_id (learning_paths db)) \<and>
      distinct (map activity_id (path_activities db)))"

definition foreign_keys :: "database \<Rightarrow> bool" where
  \<comment> \<open>\<^verbatim>\<open>db.ForeignKey('learning_paths.id')\<close> on \<^verbatim>\<open>learning_path_id\<close>\<close>
  "foreign_keys db =
     list_all (\<lambda>a. learning_path_id a \<in> set (map path_id (learning_paths db)))
       (path_activities db)"

definition stage_in_range :: "LearningPath \<Rightarrow> bool" where
  \<comment> \<open>the bound on the stage pointer of a path\<close>
  "stage_in_range p = (1 \<le> current_stage p \<and> current_stage p \<le> total_stages p)"

definition path_progress :: "nat \<Rightarrow> database \<Rightarrow> int option" where
  \<comment> \<open>the \<^verbatim>\<open>progress_percentage\<close> of path \<open>k\<close>, if there is such a path\<close>
  "path_progress k db = map_option progress_percentage (get_path k db)"

definition path_stage :: "nat \<Rightarrow> database \<Rightarrow> int option" where
  \<comment> \<open>the \<^verbatim>\<open>current_stage\<close> of path \<open>k\<close>, if there is such a path\<close>
  "path_stage k db = map_option current_stage (get_path k db)"

definition tracked :: "nat \<Rightarrow> database \<Rightarrow> bool" where
  \<comment> \<open>path \<open>k\<close> has five activities and a percentage of at most twenty per completed one\<close>
  "tracked k db =
     (count_total k db = 5 \<and>
      (\<exists>x. path_progress k db = Some x \<and> 0 \<le> x \<and> x \<le> 20 * int (count_completed k db)))"

definition five_per_path :: "database \<Rightarrow> bool" where
  \<comment> \<open>every activity belongs to a path and every path has five activities\<close>
  "five_per_path db =
     (foreign_keys db \<and> list_all (\<lambda>p. count_total (path_id p) db = 5) (learning_paths db))"

subsection \<open>Concrete databases\<close>

text \<open>
  One profile with its generated path, the same after the first activity is completed, and
  a hand-made path of fifty activities. They serve as the concrete inputs of the evaluated
  statements below.
\<close>

definition a_profile :: ChildProfile where
  "a_profile = \<lparr>profile_id = 1, user_id = 7, name = ''Mia'', age = 6, reading_level = ''beginner''\<rparr>"

definition empty_db :: database where
  \<comment> \<open>the profile alone: no path and no activity yet\<close>
  "empty_db = \<lparr>child_profiles = [a_profile], learning_paths = [], path_activities = []\<rparr>"

definition fresh_db :: database where
  \<comment> \<open>one profile with its generated path\<close>
  "fresh_db = snd (generate_learning_path a_profile 0 empty_db)"

definition completed :: "string \<rightharpoonup> json" where
  "completed = [''status'' \<mapsto> JString ''completed'']"

definition pending :: "string \<rightharpoonup> json" where
  "pending = [''status'' \<mapsto> JString ''pending'']"

definition done_db :: database where
  \<comment> \<open>the first activity of the generated path completed\<close>
  "done_db = perform fresh_db (Update 1 7 completed 1)"

definition crowded_db :: database where
  \<comment> \<open>a path of fifty activities, the first twenty-eight completed, at stage 29\<close>
  "crowded_db =
     \<lparr>child_profiles = [a_profile],
      learning_paths =
        [\<lparr>path_id = 1, child_profile_id = 1, path_title = ''Long journey'',
          path_description = ''A path of fifty stages.'', current_stage = 29,
          total_stages = 50, progress_percentage = 56, path_created_at = 0,
          last_updated = 0\<rparr>],
      path_activities =
        map (\<lambda>n. \<lparr>activity_id = n, learning_path_id = 1, activity_title = ''Reading'',
                   activity_description = ''Read a story.'', activity_type = ''reading'',
                   content_url = None, stage_number = int n,
                   status = (if n < 29 then ''completed'' else ''pending''),
                   is_completed = (n < 29), activity_created_at = 0\<rparr>)
          [1..<51]\<rparr>"

section \<open>Properties\<close>

subsection \<open>Lookups after an update\<close>

lemma find_map_preserving:
  "(\<And>x. P (g x) = P x) \<Longrightarrow> find P (map g xs) = map_option g (find P xs)"
  by (induction xs) auto

lemma get_activity_update_activity:
  assumes "\<And>a. activity_id (f a) = activity_id a"
  shows "get_activity k (update_activity k' f db) =
           map_option (\<lambda>a. if activity_id a = k' then f a else a) (get_activity k db)"
  unfolding get_activity_def update_activity_def using assms
  by (simp add: find_map_preserving)

lemma get_path_update_path:
  assumes "\<And>p. path_id (f p) = path_id p"
  shows "get_path k (update_path k' f db) =
           map_option (\<lambda>p. if path_id p = k' then f p else p) (get_path k db)"
  unfolding get_path_def update_path_def using assms
  by (simp add: find_map_preserving)

lemma get_path_update_activity [simp]: "get_path k (update_activity k' f db) = get_path k db"
  by (simp add: get_path_def update_activity_def)

lemma get_profile_update_activity [simp]:
  "get_profile k (update_activity k' f db) = get_profile k db"
  by (simp add: get_profile_def update_activity_def)

lemma get_activity_update_path [simp]: "get_activity k (update_path k' f db) = get_activity k db"
  by (simp add: get_activity_def update_path_def)

lemma get_profile_update_path [simp]: "get_profile k (update_path k' f db) = get_profile k db"
  by (simp add: get_profile_def update_path_def)

lemma get_path_Some: "get_path k db = Some p \<Longrightarrow> path_id p = k \<and> p \<in> set (learning_paths db)"
  by (auto simp: get_path_def find_Some_iff)

lemma get_activity_Some:
  "get_activity k db = Some a \<Longrightarrow> activity_id a = k \<and> a \<in> set (path_activities db)"
  by (auto simp: get_activity_def find_Some_iff)

lemma path_id_recompute [simp]: "path_id (recompute_progress c t now p) = path_id p"
  by (simp add: recompute_progress_def)

lemma current_stage_recompute [simp]:
  "current_stage (recompute_progress c t now p) = current_stage p"
  by (simp add: recompute_progress_def)

lemma total_stages_recompute [simp]:
  "total_stages (recompute_progress c t now p) = total_stages p"
  by (simp add: recompute_progress_def)

subsection \<open>The two cases of an update\<close>

lemma apply_status_cascade:
  assumes "frontier_completion activity path data"
  shows "apply_status activity path data now db =
     (let set_completed = (\<lambda>a. a\<lparr>status := ''completed'', is_completed := True\<rparr>);
          db1 = update_activity (activity_id activity) set_completed db
      in (set_completed activity,
          update_path (path_id path)
            (\<lambda>p. recompute_progress (count_completed (path_id path) db1)
                    (count_total (path_id path) db1) now
                    (p\<lparr>current_stage := (if current_stage path < total_stages path
                                         then current_stage path + 1 else current_stage path)\<rparr>))
            db1))"
  using assms by (simp add: apply_status_def frontier_completion_def Let_def)

lemma apply_status_no_cascade:
  assumes "\<not> frontier_completion activity path data"
  shows "learning_paths (snd (apply_status activity path data now db)) = learning_paths db"
  using assms
  by (auto simp: apply_status_def frontier_completion_def Let_def update_activity_def
           split: option.splits)

lemma update_path_activity_Inr:
  assumes "update_path_activity aid uid data now db = Inr r"
  obtains activity path profile where
    "get_activity aid db = Some activity"
    "get_path (learning_path_id activity) db = Some path"
    "get_profile (child_profile_id path) db = Some profile"
    "user_id profile = uid"
    "r = apply_status activity path data now db"
  using assms
  by (auto simp: update_path_activity_def split: option.splits if_splits)

subsection \<open>Evaluation on the concrete database\<close>

lemmas eval_defs = fresh_db_def empty_db_def a_profile_def completed_def
  generate_learning_path_def activities_def add_activity_def next_id_def
  str_int_def str_nat.simps get_activity_def get_path_def get_profile_def
  update_path_activity_def apply_status_def update_activity_def update_path_def
  count_completed_def count_total_def recompute_progress_def path_stage_def path_progress_def
  percentage_def int_of_float_def float_mul_def true_divide_def float_of_int_def
  nearest_float_def round_half_even_def bit_length.simps Let_def

subsection \<open>Generation\<close>

text \<open>
  C1. For every profile (and every database and clock reading),
  \<^verbatim>\<open>generate_learning_path\<close> returns a path with \<open>current_stage = 1\<close>,
  \<open>total_stages = 5\<close> and \<open>progress_percentage = 0\<close>, whose title and description
  interpolate the profile's name, age and reading level. It adds that path to the table and
  adds exactly five activities of that path after the rows already there: stages
  \<open>1, 2, 3, 4, 5\<close> with the types and titles of the template in its order, each with
  status \<open>pending\<close> and \<open>is_completed\<close> false.
\<close>

theorem generate_learning_path_template:
  "(case generate_learning_path profile now db of (path, db') \<Rightarrow>
      current_stage path = 1 \<and> total_stages path = 5 \<and> progress_percentage path = 0 \<and>
      child_profile_id path = profile_id profile \<and>
      path_title path = ''Personalized Reading Journey for '' @ name profile \<and>
      path_description path = ''A customized learning path designed for a ''
         @ str_int (age profile) @ ''-year-old reader at '' @ reading_level profile
         @ '' level.'' \<and>
      child_profiles db' = child_profiles db \<and>
      learning_paths db' = learning_paths db @ [path] \<and>
      take (length (path_activities db)) (path_activities db') = path_activities db \<and>
      map (\<lambda>a. (learning_path_id a, stage_number a, activity_type a, activity_title a,
                 status a, is_completed a))
          (drop (length (path_activities db)) (path_activities db')) =
        [(path_id path, 1, ''assessment'', ''Reading Assessment'', ''pending'', False),
         (path_id path, 2, ''exercise'', ''Vocabulary Building'', ''pending'', False),
         (path_id path, 3, ''reading'', ''Guided Reading'', ''pending'', False),
         (path_id path, 4, ''quiz'', ''Comprehension Quiz'', ''pending'', False),
         (path_id path, 5, ''creative'', ''Creative Response'', ''pending'', False)])"
  by (simp add: generate_learning_path_def activities_def add_activity_def Let_def)

subsection \<open>The stage pointer\<close>

text \<open>
  C2. When status \<open>completed\<close> is applied to an activity whose \<open>stage_number\<close> equals the
  \<open>current_stage\<close> of its path, the path's \<open>current_stage\<close> afterwards is one more than
  before if it was below \<open>total_stages\<close>, and what it was otherwise.
\<close>

theorem frontier_completion_advances_stage:
  assumes "get_activity aid db = Some activity"
    and "get_path (learning_path_id activity) db = Some path"
    and "data ''status'' = Some (JString ''completed'')"
    and "stage_number activity = current_stage path"
    and "update_path_activity aid uid data now db = Inr (activity', db')"
  shows "path_stage (path_id path) db' =
           Some (if current_stage path < total_stages path
                 then current_stage path + 1 else current_stage path)"
proof -
  have fc: "frontier_completion activity path data"
    using assms(3,4) by (simp add: frontier_completion_def)
  from assms(5) obtain a p where a: "get_activity aid db = Some a"
    and p: "get_path (learning_path_id a) db = Some p"
    and r: "(activity', db') = apply_status a p data now db"
    by (rule update_path_activity_Inr)
  from a p assms(1,2) have same: "a = activity" "p = path" by simp_all
  have id: "path_id path = learning_path_id activity"
    using get_path_Some [OF assms(2)] by simp
  have "db' = snd (apply_status activity path data now db)"
    using r same by (metis snd_conv)
  then show ?thesis
    using assms(2) id
    by (simp add: apply_status_cascade [OF fc] Let_def path_stage_def get_path_update_path)
qed

theorem frontier_completion_advances_stage_witness:
  "\<exists>activity path activity' db'.
     get_activity 1 fresh_db = Some activity \<and>
     get_path (learning_path_id activity) fresh_db = Some path \<and>
     completed ''status'' = Some (JString ''completed'') \<and>
     stage_number activity = current_stage path \<and>
     update_path_activity 1 7 completed 0 fresh_db = Inr (activity', db') \<and>
     path_stage (path_id path) db' = Some 2"
proof -
  let ?a = "hd (path_activities fresh_db)"
  let ?p = "hd (learning_paths fresh_db)"
  let ?r = "apply_status ?a ?p completed 0 fresh_db"
  have 1: "get_activity 1 fresh_db = Some ?a" by (simp add: eval_defs)
  have 2: "get_path (learning_path_id ?a) fresh_db = Some ?p" by (simp add: eval_defs)
  have 3: "completed ''status'' = Some (JString ''completed'')" by (simp add: completed_def)
  have 4: "stage_number ?a = current_stage ?p" by (simp add: eval_defs)
  have 5: "update_path_activity 1 7 completed 0 fresh_db = Inr (fst ?r, snd ?r)"
    unfolding update_path_activity_def using 1 2
    by (simp add: fresh_db_def empty_db_def a_profile_def get_profile_def
          generate_learning_path_def Let_def activities_def add_activity_def)
  have 6: "current_stage ?p = 1" "total_stages ?p = 5" by (simp_all add: eval_defs)
  from frontier_completion_advances_stage [OF 1 2 3 4 5] 6
  have "path_stage (path_id ?p) (snd ?r) = Some 2" by simp
  with 1 2 3 4 5 show ?thesis by blast
qed

subsection \<open>What an update does to the activities\<close>

lemma status_change_simps [simp]:
  "activity_id (status_change data a) = activity_id a"
  "learning_path_id (status_change data a) = learning_path_id a"
  "stage_number (status_change data a) = stage_number a"
  by (simp_all add: status_change_def split: option.splits)

lemma status_change_completed: "is_completed a \<Longrightarrow> is_completed (status_change data a)"
  by (simp add: status_change_def split: option.splits)

lemma apply_status_activity: "fst (apply_status activity path data now db) = status_change data activity"
  by (simp add: apply_status_def status_change_def Let_def split: option.splits)

lemma status_change_cases:
  "data ''status'' = None \<Longrightarrow> status_change data a = a"
  "data ''status'' = Some v \<Longrightarrow> \<not> json_in v [''pending'', ''in-progress'', ''completed'']
     \<Longrightarrow> status_change data a = a"
  "data ''status'' = Some v \<Longrightarrow> json_in v [''pending'', ''in-progress'', ''completed'']
     \<Longrightarrow> v \<noteq> JString ''completed'' \<Longrightarrow> status_change data a = a\<lparr>status := json_str v\<rparr>"
  "data ''status'' = Some (JString ''completed'')
     \<Longrightarrow> status_change data a = a\<lparr>status := ''completed'', is_completed := True\<rparr>"
  by (simp_all add: status_change_def)

lemma apply_status_activities:
  "path_activities (snd (apply_status activity path data now db)) =
     map (\<lambda>a. if activity_id a = activity_id activity then status_change data a else a)
       (path_activities db)"
proof (cases "data ''status''")
  case None
  then show ?thesis
    by (simp add: apply_status_def status_change_cases map_idI)
next
  case (Some v)
  show ?thesis
  proof (cases "json_in v [''pending'', ''in-progress'', ''completed'']")
    case False
    with Some show ?thesis
      by (simp add: apply_status_def status_change_cases(2) [where data = data and v = v] map_idI)
  next
    case True
    show ?thesis
    proof (cases "v = JString ''completed''")
      case False
      with Some True show ?thesis
        by (simp add: apply_status_def status_change_cases(3) [where data = data and v = v] update_activity_def)
    next
      case c: True
      with Some show ?thesis
        by (simp add: apply_status_def status_change_cases(4) update_activity_def
              update_path_def Let_def)
    qed
  qed
qed

lemma apply_status_profiles:
  "child_profiles (snd (apply_status activity path data now db)) = child_profiles db"
  by (auto simp: apply_status_def Let_def update_activity_def update_path_def
      split: option.splits)

lemma json_in_iff: "json_in v xs \<longleftrightarrow> (\<exists>s\<in>set xs. v = JString s)"
  by (cases v) auto

subsection \<open>Transitions that leave the path alone\<close>

text \<open>
  C7. A call that sets the status to \<open>pending\<close> or \<open>in-progress\<close> (whatever the stage), or
  to \<open>completed\<close> on an activity whose \<open>stage_number\<close> differs from the path's
  \<open>current_stage\<close>, changes the row of that activity only: the table of paths (every field
  of every path, \<open>current_stage\<close> and \<open>progress_percentage\<close> among them) and the table
  of profiles are as before, and so is every other activity.
\<close>

theorem other_transitions_leave_path:
  assumes "get_activity aid db = Some activity"
    and "get_path (learning_path_id activity) db = Some path"
    and "update_path_activity aid uid data now db = Inr (activity', db')"
    and "data ''status'' = Some (JString s)"
    and "s = ''pending'' \<or> s = ''in-progress'' \<or>
         (s = ''completed'' \<and> stage_number activity \<noteq> current_stage path)"
  shows "learning_paths db' = learning_paths db \<and>
         child_profiles db' = child_profiles db \<and>
         path_activities db' =
           map (\<lambda>a. if activity_id a = aid
                     then a\<lparr>status := s, is_completed := (is_completed a \<or> s = ''completed'')\<rparr>
                     else a)
             (path_activities db)"
proof -
  from assms(3) obtain a p where a: "get_activity aid db = Some a"
    and p: "get_path (learning_path_id a) db = Some p"
    and r: "(activity', db') = apply_status a p data now db"
    by (rule update_path_activity_Inr)
  from a p assms(1,2) have same: "a = activity" "p = path" by simp_all
  have db': "db' = snd (apply_status activity path data now db)"
    using r same by (metis snd_conv)
  have nf: "\<not> frontier_completion activity path data"
    using assms(4,5) by (auto simp: frontier_completion_def)
  have aid: "activity_id activity = aid" using get_activity_Some [OF assms(1)] by simp
  have sc: "status_change data =
              (\<lambda>a. a\<lparr>status := s, is_completed := (is_completed a \<or> s = ''completed'')\<rparr>)"
    using assms(4,5) by (auto simp: status_change_def fun_eq_iff)
  show ?thesis
    unfolding db'
    by (simp add: apply_status_no_cascade [OF nf] apply_status_profiles
          apply_status_activities aid sc)
qed

theorem other_transitions_leave_path_witness:
  "\<exists>activity path activity' db'.
     get_activity 3 fresh_db = Some activity \<and>
     get_path (learning_path_id activity) fresh_db = Some path \<and>
     update_path_activity 3 7 completed 0 fresh_db = Inr (activity', db') \<and>
     completed ''status'' = Some (JString ''completed'') \<and>
     stage_number activity \<noteq> current_stage path \<and>
     learning_paths db' = learning_paths fresh_db \<and>
     child_profiles db' = child_profiles fresh_db \<and>
     path_activities db' =
       map (\<lambda>a. if activity_id a = 3 then a\<lparr>status := ''completed'', is_completed := True\<rparr>
                 else a)
         (path_activities fresh_db)"
proof -
  let ?a = "path_activities fresh_db ! 2"
  let ?p = "hd (learning_paths fresh_db)"
  let ?r = "apply_status ?a ?p completed 0 fresh_db"
  have 1: "get_activity 3 fresh_db = Some ?a" by (simp add: eval_defs)
  have 2: "get_path (learning_path_id ?a) fresh_db = Some ?p" by (simp add: eval_defs)
  have 3: "completed ''status'' = Some (JString ''completed'')" by (simp add: completed_def)
  have 4: "stage_number ?a \<noteq> current_stage ?p" by (simp add: eval_defs)
  have 5: "update_path_activity 3 7 completed 0 fresh_db = Inr (fst ?r, snd ?r)"
    unfolding update_path_activity_def using 1 2
    by (simp add: fresh_db_def empty_db_def a_profile_def get_profile_def
          generate_learning_path_def Let_def activities_def add_activity_def)
  from other_transitions_leave_path [OF 1 2 5 3] 4
  have "learning_paths (snd ?r) = learning_paths fresh_db \<and>
        child_profiles (snd ?r) = child_profiles fresh_db \<and>
        path_activities (snd ?r) =
          map (\<lambda>a. if activity_id a = 3 then a\<lparr>status := ''completed'', is_completed := True\<rparr>
                    else a)
            (path_activities fresh_db)"
    by simp
  with 1 2 3 4 5 show ?thesis by blast
qed

subsection \<open>A status outside the enumeration\<close>

text \<open>
  C4, as the code has it. When the body's \<open>status\<close> is none of \<open>pending\<close>,
  \<open>in-progress\<close>, \<open>completed\<close>, the request changes nothing: the database is the one
  before. No error is signalled: the handler answers with its success response and the
  activity as it was.
\<close>


theorem invalid_status_is_ignored:
  assumes "get_activity aid db = Some activity"
    and "get_path (learning_path_id activity) db = Some path"
    and "get_profile (child_profile_id path) db = Some profile"
    and "user_id profile = uid"
    and "data ''status'' = Some v"
    and "v \<notin> {JString ''pending'', JString ''in-progress'', JString ''completed''}"
  shows "update_path_activity aid uid data now db = Inr (activity, db)"
  using assms
  by (auto simp: update_path_activity_def apply_status_def json_in_iff)


theorem invalid_status_counterexample:
  "update_path_activity 1 7 [''status'' \<mapsto> JString ''done''] 0 fresh_db =
     Inr (hd (path_activities fresh_db), fresh_db)"
  by (simp add: eval_defs)

theorem invalid_status_is_ignored_witness:
  "get_activity 1 fresh_db = Some (hd (path_activities fresh_db)) \<and>
   get_path (learning_path_id (hd (path_activities fresh_db))) fresh_db
     = Some (hd (learning_paths fresh_db)) \<and>
   get_profile (child_profile_id (hd (learning_paths fresh_db))) fresh_db = Some a_profile \<and>
   user_id a_profile = 7 \<and>
   [''status'' \<mapsto> JNumber 3] ''status'' = Some (JNumber 3) \<and>
   JNumber 3 \<notin> {JString ''pending'', JString ''in-progress'', JString ''completed''} \<and>
   update_path_activity 1 7 [''status'' \<mapsto> JNumber 3] 5 fresh_db
     = Inr (hd (path_activities fresh_db), fresh_db)"
proof -
  let ?a = "hd (path_activities fresh_db)"
  let ?p = "hd (learning_paths fresh_db)"
  have 1: "get_activity 1 fresh_db = Some ?a" by (simp add: eval_defs)
  have 2: "get_path (learning_path_id ?a) fresh_db = Some ?p" by (simp add: eval_defs)
  have 3: "get_profile (child_profile_id ?p) fresh_db = Some a_profile"
    by (simp add: fresh_db_def empty_db_def a_profile_def get_profile_def
          generate_learning_path_def Let_def activities_def add_activity_def)
  have 4: "user_id a_profile = 7" by (simp add: a_profile_def)
  have 5: "[''status'' \<mapsto> JNumber 3] ''status'' = Some (JNumber 3)" by simp
  have 6: "JNumber 3 \<notin> {JString ''pending'', JString ''in-progress'', JString ''completed''}"
    by simp
  from invalid_status_is_ignored
         [where data = "[''status'' \<mapsto> JNumber 3]" and now = 5, OF 1 2 3 4 5 6]
       1 2 3 4 5 6
  show ?thesis by blast
qed

subsection \<open>Fresh keys and the rows of a generated path\<close>

lemma fold_max_lower: "(a::nat) \<le> fold max xs a"
proof (induction xs arbitrary: a)
  case Nil
  show ?case by simp
next
  case (Cons x xs)
  have "a \<le> max x a" by simp
  also have "\<dots> \<le> fold max xs (max x a)" by (rule Cons.IH)
  finally show ?case by simp
qed

lemma fold_max_upper: "x \<in> set xs \<Longrightarrow> (x::nat) \<le> fold max xs a"
proof (induction xs arbitrary: a)
  case Nil
  then show ?case by simp
next
  case (Cons y ys)
  show ?case
  proof (cases "x = y")
    case True
    have "x \<le> max y a" using True by simp
    also have "\<dots> \<le> fold max ys (max y a)" by (rule fold_max_lower)
    finally show ?thesis by simp
  next
    case False
    with Cons.prems have "x \<in> set ys" by simp
    then show ?thesis using Cons.IH by simp
  qed
qed

lemma next_id_greater: "x \<in> set xs \<Longrightarrow> x < next_id xs"
  using fold_max_upper [of x xs 0] by (simp add: next_id_def)

lemma next_id_fresh: "next_id xs \<notin> set xs"
  using next_id_greater [of "next_id xs" xs] by auto

lemma add_activity_tables [simp]:
  "learning_paths (add_activity pid now db d) = learning_paths db"
  "child_profiles (add_activity pid now db d) = child_profiles db"
  by (simp_all add: add_activity_def)

lemma foldl_add_activity_tables [simp]:
  "learning_paths (foldl (add_activity pid now) db ds) = learning_paths db"
  "child_profiles (foldl (add_activity pid now) db ds) = child_profiles db"
  by (induction ds arbitrary: db) simp_all

lemma foldl_add_activity_rows:
  "\<exists>new. path_activities (foldl (add_activity pid now) db ds) = path_activities db @ new \<and>
         length new = length ds \<and>
         (\<forall>a\<in>set new. learning_path_id a = pid \<and> \<not> is_completed a)"
proof (induction ds arbitrary: db)
  case Nil
  show ?case by simp
next
  case (Cons d ds)
  from Cons.IH [of "add_activity pid now db d"]
  obtain new where new:
    "path_activities (foldl (add_activity pid now) (add_activity pid now db d) ds)
       = path_activities (add_activity pid now db d) @ new"
    "length new = length ds"
    "\<forall>a\<in>set new. learning_path_id a = pid \<and> \<not> is_completed a"
    by blast
  obtain r where r: "path_activities (add_activity pid now db d) = path_activities db @ [r]"
    "learning_path_id r = pid" "\<not> is_completed r"
    by (simp add: add_activity_def)
  show ?case
    by (rule exI [of _ "r # new"]) (use new r in simp)
qed

lemma foldl_add_activity_distinct:
  "distinct (map activity_id (path_activities db)) \<Longrightarrow>
   distinct (map activity_id (path_activities (foldl (add_activity pid now) db ds)))"
proof (induction ds arbitrary: db)
  case Nil
  then show ?case by simp
next
  case (Cons d ds)
  have "distinct (map activity_id (path_activities (add_activity pid now db d)))"
    using Cons.prems next_id_fresh [of "map activity_id (path_activities db)"]
    by (simp add: add_activity_def)
  then show ?case using Cons.IH by simp
qed

lemma generate_paths:
  "learning_paths (snd (generate_learning_path profile now db)) =
     learning_paths db @ [fst (generate_learning_path profile now db)]"
  by (simp add: generate_learning_path_def Let_def)

lemma generate_profiles [simp]:
  "child_profiles (snd (generate_learning_path profile now db)) = child_profiles db"
  by (simp add: generate_learning_path_def Let_def)

lemma generate_path_fields [simp]:
  "path_id (fst (generate_learning_path profile now db)) = next_id (map path_id (learning_paths db))"
  "current_stage (fst (generate_learning_path profile now db)) = 1"
  "total_stages (fst (generate_learning_path profile now db)) = 5"
  "progress_percentage (fst (generate_learning_path profile now db)) = 0"
  by (simp_all add: generate_learning_path_def Let_def)

lemma generate_rows:
  "\<exists>new. path_activities (snd (generate_learning_path profile now db)) = path_activities db @ new \<and>
         length new = 5 \<and>
         (\<forall>a\<in>set new. learning_path_id a = next_id (map path_id (learning_paths db)) \<and>
                       \<not> is_completed a)"
proof -
  let ?pid = "next_id (map path_id (learning_paths db))"
  let ?db1 = "db\<lparr>learning_paths := learning_paths db @
                 [fst (generate_learning_path profile now db)]\<rparr>"
  have eq: "snd (generate_learning_path profile now db) =
              foldl (add_activity ?pid now) ?db1 activities"
    by (simp add: generate_learning_path_def Let_def)
  have len: "length activities = 5" by (simp add: activities_def)
  from foldl_add_activity_rows [of ?pid now ?db1 activities]
  show ?thesis unfolding eq len by simp
qed

lemma generate_primary_keys:
  assumes "primary_keys db"
  shows "primary_keys (snd (generate_learning_path profile now db))"
proof -
  have "distinct (map activity_id (path_activities (snd (generate_learning_path profile now db))))"
    using assms foldl_add_activity_distinct
    by (simp add: generate_learning_path_def Let_def primary_keys_def)
  moreover have "distinct (map path_id (learning_paths (snd (generate_learning_path profile now db))))"
    using assms next_id_fresh [of "map path_id (learning_paths db)"]
    by (simp add: generate_paths primary_keys_def)
  ultimately show ?thesis using assms by (simp add: primary_keys_def)
qed

subsection \<open>Primary keys and the range of the stage pointer\<close>

lemma apply_status_path_ids:
  "map path_id (learning_paths (snd (apply_status activity path data now db))) =
     map path_id (learning_paths db)"
proof (cases "frontier_completion activity path data")
  case True
  show ?thesis
    by (simp add: apply_status_cascade [OF True] Let_def update_path_def update_activity_def
          comp_def)
next
  case False
  then show ?thesis by (simp add: apply_status_no_cascade)
qed

lemma apply_status_primary_keys:
  assumes "primary_keys db"
  shows "primary_keys (snd (apply_status activity path data now db))"
proof -
  have "map activity_id (path_activities (snd (apply_status activity path data now db))) =
          map activity_id (path_activities db)"
    by (simp add: apply_status_activities comp_def)
  then show ?thesis
    using assms by (simp add: primary_keys_def apply_status_path_ids apply_status_profiles)
qed

lemma perform_Update_cases:
  obtains "perform db (Update aid uid data now) = db"
  | activity path where "get_activity aid db = Some activity"
      "get_path (learning_path_id activity) db = Some path"
      "perform db (Update aid uid data now) = snd (apply_status activity path data now db)"
proof (cases "update_path_activity aid uid data now db")
  case (Inl e)
  then have "perform db (Update aid uid data now) = db" by simp
  then show ?thesis by (rule that(1))
next
  case (Inr r)
  then obtain activity path where "get_activity aid db = Some activity"
      "get_path (learning_path_id activity) db = Some path"
      "r = apply_status activity path data now db"
    by (rule update_path_activity_Inr)
  moreover have "perform db (Update aid uid data now) = snd r"
    using Inr by (simp split: prod.splits)
  ultimately show ?thesis using that(2) by simp
qed

lemma perform_primary_keys: "primary_keys db \<Longrightarrow> primary_keys (perform db op)"
proof (cases op)
  case (Generate profile now)
  assume "primary_keys db"
  then show ?thesis using Generate by (simp add: generate_primary_keys)
next
  case (Update aid uid data now)
  assume pk: "primary_keys db"
  show ?thesis unfolding Update
    by (rule perform_Update_cases [of db aid uid data now])
       (simp_all add: pk apply_status_primary_keys)
qed

lemma same_key_same_row:
  assumes "distinct (map f xs)" "x \<in> set xs" "y \<in> set xs" "f x = f y"
  shows "x = y"
  using assms by (meson distinct_map inj_onD)

lemma apply_status_stage_in_range:
  assumes pk: "primary_keys db"
    and path: "get_path k db = Some path"
    and inv: "\<forall>p\<in>set (learning_paths db). stage_in_range p"
  shows "\<forall>p\<in>set (learning_paths (snd (apply_status activity path data now db))). stage_in_range p"
proof (cases "frontier_completion activity path data")
  case False
  then show ?thesis using inv by (simp add: apply_status_no_cascade)
next
  case True
  have mem: "path \<in> set (learning_paths db)" using get_path_Some [OF path] by simp
  have d: "distinct (map path_id (learning_paths db))" using pk by (simp add: primary_keys_def)
  have row: "q = path" if "q \<in> set (learning_paths db)" "path_id q = path_id path" for q
    using same_key_same_row [OF d that(1) mem that(2)] .
  let ?db1 = "update_activity (activity_id activity)
                (\<lambda>a. a\<lparr>status := ''completed'', is_completed := True\<rparr>) db"
  let ?g = "\<lambda>p. recompute_progress (count_completed (path_id path) ?db1)
                    (count_total (path_id path) ?db1) now
                    (p\<lparr>current_stage := (if current_stage path < total_stages path
                                         then current_stage path + 1 else current_stage path)\<rparr>)"
  have paths: "learning_paths (snd (apply_status activity path data now db)) =
                 map (\<lambda>p. if path_id p = path_id path then ?g p else p) (learning_paths db)"
    by (simp add: apply_status_cascade [OF True] Let_def update_path_def update_activity_def)
  have "stage_in_range path" using inv mem by blast
  then have new: "stage_in_range (?g path)"
    by (simp add: stage_in_range_def)
  show ?thesis
  proof
    fix p' assume "p' \<in> set (learning_paths (snd (apply_status activity path data now db)))"
    then obtain q where q: "q \<in> set (learning_paths db)"
      and p': "p' = (if path_id q = path_id path then ?g q else q)"
      unfolding paths by auto
    show "stage_in_range p'"
    proof (cases "path_id q = path_id path")
      case True
      then have "q = path" using row q by blast
      then show ?thesis using p' new by simp
    next
      case False
      then show ?thesis using p' q inv by simp
    qed
  qed
qed

lemma perform_stage_in_range:
  assumes "primary_keys db" "\<forall>p\<in>set (learning_paths db). stage_in_range p"
  shows "\<forall>p\<in>set (learning_paths (perform db op)). stage_in_range p"
proof (cases op)
  case (Generate profile now)
  show ?thesis using assms(2) unfolding Generate
    by (simp add: generate_paths stage_in_range_def)
next
  case (Update aid uid data now)
  show ?thesis unfolding Update
    by (rule perform_Update_cases [of db aid uid data now])
       (use assms in \<open>simp_all add: apply_status_stage_in_range\<close>)
qed

lemma perform_all_invariant:
  assumes "primary_keys db" "\<forall>p\<in>set (learning_paths db). stage_in_range p"
  shows "primary_keys (perform_all ops db) \<and>
         (\<forall>p\<in>set (learning_paths (perform_all ops db)). stage_in_range p)"
  using assms unfolding perform_all_def
proof (induction ops arbitrary: db)
  case Nil
  then show ?case by simp
next
  case (Cons op ops)
  have "primary_keys (perform db op)" using Cons.prems(1) by (rule perform_primary_keys)
  moreover have "\<forall>p\<in>set (learning_paths (perform db op)). stage_in_range p"
    using Cons.prems by (rule perform_stage_in_range)
  ultimately show ?case using Cons.IH by simp
qed

text \<open>
  C9. In a database whose \<open>id\<close> columns are primary keys and in which every path has
  \<open>1 \<le> current_stage \<le> total_stages\<close>, the path that generation returns is in that
  range (stage \<open>1\<close> of \<open>5\<close>), and after any sequence of generations and update requests
  every path of the database is in that range.
\<close>


theorem stage_stays_in_range:
  assumes "primary_keys db" and "\<forall>p\<in>set (learning_paths db). stage_in_range p"
  shows "stage_in_range (fst (generate_learning_path profile now db)) \<and>
         (\<forall>p\<in>set (learning_paths (perform_all ops db)). stage_in_range p)"
  using perform_all_invariant [OF assms] by (simp add: stage_in_range_def)

theorem stage_stays_in_range_witness:
  "primary_keys fresh_db \<and>
   list_all stage_in_range (learning_paths fresh_db) \<and>
   stage_in_range (fst (generate_learning_path a_profile 1 fresh_db)) \<and>
   list_all stage_in_range
     (learning_paths
        (perform_all [Update 5 7 completed 1, Generate a_profile 2, Update 1 7 completed 3]
           fresh_db))"
proof -
  have 1: "primary_keys fresh_db" by (simp add: eval_defs primary_keys_def)
  have 2: "\<forall>p\<in>set (learning_paths fresh_db). stage_in_range p"
    by (simp add: eval_defs stage_in_range_def)
  from stage_stays_in_range [OF 1 2] 1 2 show ?thesis
    unfolding list_all_iff by blast
qed

subsection \<open>The attributes of the activity\<close>

lemma find_append_Some: "find P xs = Some a \<Longrightarrow> find P (xs @ ys) = Some a"
  by (induction xs) (auto split: if_splits)

lemma get_activity_apply_status:
  "get_activity k (snd (apply_status activity path data now db)) =
     map_option (\<lambda>a. if activity_id a = activity_id activity then status_change data a else a)
       (get_activity k db)"
  by (simp add: get_activity_def apply_status_activities find_map_preserving)

lemma get_activity_generate:
  assumes "get_activity k db = Some a"
  shows "get_activity k (snd (generate_learning_path profile now db)) = Some a"
proof -
  obtain new where
    "path_activities (snd (generate_learning_path profile now db)) = path_activities db @ new"
    using generate_rows by blast
  then show ?thesis
    using assms by (simp add: get_activity_def find_append_Some)
qed

lemma perform_keeps_completed:
  assumes "get_activity k db = Some a" "is_completed a"
  shows "\<exists>a'. get_activity k (perform db op) = Some a' \<and> is_completed a'"
proof (cases op)
  case (Generate profile now)
  then show ?thesis using assms by (simp add: get_activity_generate)
next
  case (Update aid uid data now)
  show ?thesis unfolding Update
    by (rule perform_Update_cases [of db aid uid data now])
       (use assms in \<open>auto simp: get_activity_apply_status status_change_completed\<close>)
qed

lemma perform_all_keeps_completed:
  assumes "get_activity k db = Some a" "is_completed a"
  shows "\<exists>a'. get_activity k (perform_all ops db) = Some a' \<and> is_completed a'"
  using assms unfolding perform_all_def
proof (induction ops arbitrary: db a)
  case Nil
  then show ?case by simp
next
  case (Cons op ops)
  from perform_keeps_completed [OF Cons.prems, of op]
  obtain a' where "get_activity k (perform db op) = Some a'" "is_completed a'" by blast
  then show ?case using Cons.IH by simp
qed

lemma perform_fresh:
  "perform fresh_db (Update 1 7 data now) =
     snd (apply_status (hd (path_activities fresh_db)) (hd (learning_paths fresh_db)) data now
            fresh_db)"
  by (simp add: fresh_db_def empty_db_def a_profile_def get_profile_def get_activity_def
        get_path_def update_path_activity_def next_id_def
        generate_learning_path_def Let_def activities_def add_activity_def split: prod.splits)

text \<open>
  C8. A call with a valid status \<open>s\<close> sets the activity's \<open>status\<close> to \<open>s\<close>; it sets
  \<open>is_completed\<close> when \<open>s\<close> is \<open>completed\<close> and leaves \<open>is_completed\<close> as it was
  otherwise. An activity whose \<open>is_completed\<close> is true keeps it true through every sequence
  of later operations, whatever statuses they set.
\<close>


theorem status_is_set_and_completion_sticks:
  "(get_activity aid db = Some activity \<longrightarrow>
    update_path_activity aid uid data now db = Inr (activity', db') \<longrightarrow>
    data ''status'' = Some (JString s) \<longrightarrow>
    s \<in> {''pending'', ''in-progress'', ''completed''} \<longrightarrow>
      get_activity aid db' = Some activity' \<and>
      activity' = activity\<lparr>status := s,
                           is_completed := (is_completed activity \<or> s = ''completed'')\<rparr>) \<and>
   (get_activity k db = Some a \<longrightarrow> is_completed a \<longrightarrow>
      (\<exists>a'. get_activity k (perform_all ops db) = Some a' \<and> is_completed a'))"
proof (intro conjI impI)
  assume a: "get_activity aid db = Some activity"
    and r: "update_path_activity aid uid data now db = Inr (activity', db')"
    and d: "data ''status'' = Some (JString s)"
    and s: "s \<in> {''pending'', ''in-progress'', ''completed''}"
  from r obtain a0 p where "get_activity aid db = Some a0"
    and eq: "(activity', db') = apply_status a0 p data now db"
    by (rule update_path_activity_Inr)
  with a have a0: "a0 = activity" by simp
  have aid: "activity_id activity = aid" using get_activity_Some [OF a] by simp
  have act: "activity' = status_change data activity"
    using eq a0 apply_status_activity [of activity p data now db] by (metis fst_conv)
  have db': "db' = snd (apply_status activity p data now db)"
    using eq a0 by (metis snd_conv)
  have sc: "status_change data activity =
          activity\<lparr>status := s, is_completed := (is_completed activity \<or> s = ''completed'')\<rparr>"
    using d s by (auto simp: status_change_def)
  show "get_activity aid db' = Some activity'"
    unfolding db' act using a aid by (simp add: get_activity_apply_status)
  show "activity' = activity\<lparr>status := s,
                           is_completed := (is_completed activity \<or> s = ''completed'')\<rparr>"
    using act sc by simp
next
  assume "get_activity k db = Some a" "is_completed a"
  then show "\<exists>a'. get_activity k (perform_all ops db) = Some a' \<and> is_completed a'"
    by (rule perform_all_keeps_completed)
qed

theorem status_is_set_and_completion_sticks_witness:
  "\<exists>activity activity' db' a.
     get_activity 1 done_db = Some activity \<and>
     update_path_activity 1 7 pending 2 done_db = Inr (activity', db') \<and>
     pending ''status'' = Some (JString ''pending'') \<and>
     ''pending'' \<in> {''pending'', ''in-progress'', ''completed''} \<and>
     get_activity 1 db' = Some activity' \<and>
     status activity' = ''pending'' \<and> is_completed activity' \<and>
     get_activity 1 done_db = Some a \<and> is_completed a \<and>
     (\<exists>a'. get_activity 1 (perform_all [Update 1 7 pending 2, Generate a_profile 3] done_db)
             = Some a' \<and> is_completed a')"
proof -
  let ?a0 = "hd (path_activities fresh_db)"
  let ?a = "?a0\<lparr>status := ''completed'', is_completed := True\<rparr>"
  have 1: "get_activity 1 done_db = Some ?a"
    unfolding done_db_def perform_fresh
    by (simp add: eval_defs)
  obtain r where r: "update_path_activity 1 7 pending 2 done_db = Inr r"
    unfolding done_db_def perform_fresh
    by (simp add: eval_defs pending_def)
  have 2: "update_path_activity 1 7 pending 2 done_db = Inr (fst r, snd r)" using r by simp
  have 3: "pending ''status'' = Some (JString ''pending'')" by (simp add: pending_def)
  have 4: "''pending'' \<in> {''pending'', ''in-progress'', ''completed''}" by simp
  have 5: "is_completed ?a" by simp
  note inst = status_is_set_and_completion_sticks
      [of 1 done_db ?a 7 pending 2 "fst r" "snd r" "''pending''" 1 ?a
          "[Update 1 7 pending 2, Generate a_profile 3]"]
  from inst 1 2 3 4 5 have "get_activity 1 (snd r) = Some (fst r)"
    and "fst r = ?a\<lparr>status := ''pending'', is_completed := (is_completed ?a \<or> ''pending'' = ''completed'')\<rparr>"
    and "\<exists>a'. get_activity 1 (perform_all [Update 1 7 pending 2, Generate a_profile 3] done_db)
             = Some a' \<and> is_completed a'"
    by blast+
  then have "get_activity 1 (snd r) = Some (fst r)" "status (fst r) = ''pending''"
    "is_completed (fst r)"
    "\<exists>a'. get_activity 1 (perform_all [Update 1 7 pending 2, Generate a_profile 3] done_db)
             = Some a' \<and> is_completed a'"
    by simp_all
  with 1 2 3 4 5 show ?thesis by blast
qed

subsection \<open>Completing the same activity again\<close>

lemma cascade_path:
  assumes "frontier_completion activity path data"
    and "get_path (path_id path) db = Some path"
  shows "\<exists>c t. get_path (path_id path) (snd (apply_status activity path data now db)) =
           Some (recompute_progress c t now
             (path\<lparr>current_stage := (if current_stage path < total_stages path
                                      then current_stage path + 1 else current_stage path)\<rparr>))"
  using assms(2)
  by (auto simp: apply_status_cascade [OF assms(1)] Let_def get_path_update_path)

lemma perform_Update_no_cascade:
  assumes "get_activity aid db = Some activity"
    and "get_path (learning_path_id activity) db = Some path"
    and "\<not> frontier_completion activity path data"
  shows "learning_paths (perform db (Update aid uid data now)) = learning_paths db"
proof (rule perform_Update_cases [of db aid uid data now])
  assume "perform db (Update aid uid data now) = db"
  then show ?thesis by simp
next
  fix a p
  assume "get_activity aid db = Some a" "get_path (learning_path_id a) db = Some p"
    and eq: "perform db (Update aid uid data now) = snd (apply_status a p data now db)"
  with assms(1,2) have "a = activity" "p = path" by simp_all
  then show ?thesis using eq assms(3) by (simp add: apply_status_no_cascade)
qed

lemma path_stage_cong:
  "learning_paths db' = learning_paths db \<Longrightarrow> path_stage k db' = path_stage k db"
  by (simp add: path_stage_def get_path_def)

text \<open>
  C5, as the code has it. Applying \<open>completed\<close> to an activity whose \<open>stage_number\<close>
  equals its path's \<open>current_stage\<close>, below \<open>total_stages\<close>, advances \<open>current_stage\<close> by
  one, whether or not the activity is completed already: the update looks at neither
  \<open>status\<close> nor \<open>is_completed\<close>. Applying \<open>completed\<close> to the same activity once more
  right after does not advance the stage again: the activity's \<open>stage_number\<close> is no
  longer the path's \<open>current_stage\<close>.
\<close>


theorem repeated_completion_advances_once:
  assumes a: "get_activity aid db = Some activity"
    and p: "get_path (learning_path_id activity) db = Some path"
    and pr: "get_profile (child_profile_id path) db = Some profile"
    and u: "user_id profile = uid"
    and d: "data ''status'' = Some (JString ''completed'')"
    and st: "stage_number activity = current_stage path"
    and lt: "current_stage path < total_stages path"
  shows "path_stage (path_id path) (perform db (Update aid uid data now)) =
           Some (current_stage path + 1) \<and>
         path_stage (path_id path)
           (perform (perform db (Update aid uid data now)) (Update aid uid data now')) =
           Some (current_stage path + 1)"
proof -
  let ?db1 = "snd (apply_status activity path data now db)"
  have fc: "frontier_completion activity path data"
    using d st by (simp add: frontier_completion_def)
  have id: "path_id path = learning_path_id activity"
    using get_path_Some [OF p] by simp
  have aid: "activity_id activity = aid" using get_activity_Some [OF a] by simp
  have first: "perform db (Update aid uid data now) = ?db1"
    using a p pr u by (simp add: update_path_activity_def split: prod.splits)
  from cascade_path [OF fc, of db now] p id lt
  obtain c t where p1: "get_path (path_id path) ?db1 =
      Some (recompute_progress c t now (path\<lparr>current_stage := current_stage path + 1\<rparr>))"
    by auto
  let ?path1 = "recompute_progress c t now (path\<lparr>current_stage := current_stage path + 1\<rparr>)"
  have stage1: "path_stage (path_id path) ?db1 = Some (current_stage path + 1)"
    using p1 by (simp add: path_stage_def)
  have a1: "get_activity aid ?db1 = Some (status_change data activity)"
    using a aid by (simp add: get_activity_apply_status)
  have p1': "get_path (learning_path_id (status_change data activity)) ?db1 = Some ?path1"
    using p1 id by simp
  have nf: "\<not> frontier_completion (status_change data activity) ?path1 data"
    using st by (simp add: frontier_completion_def)
  have "learning_paths (perform ?db1 (Update aid uid data now')) = learning_paths ?db1"
    using a1 p1' nf by (rule perform_Update_no_cascade)
  then have "path_stage (path_id path) (perform ?db1 (Update aid uid data now')) =
               path_stage (path_id path) ?db1"
    by (rule path_stage_cong)
  then show ?thesis using stage1 first by simp
qed

theorem repeated_completion_counterexample:
  "path_stage 1 fresh_db = Some 1 \<and>
   path_stage 1 (perform_all [Update 1 7 completed 1, Update 1 7 completed 2] fresh_db) = Some 2"
  unfolding perform_all_def
  by (simp add: eval_defs split: prod.splits)

theorem repeated_completion_advances_once_witness:
  "get_activity 1 fresh_db = Some (hd (path_activities fresh_db)) \<and>
   get_path (learning_path_id (hd (path_activities fresh_db))) fresh_db
     = Some (hd (learning_paths fresh_db)) \<and>
   get_profile (child_profile_id (hd (learning_paths fresh_db))) fresh_db = Some a_profile \<and>
   user_id a_profile = 7 \<and>
   completed ''status'' = Some (JString ''completed'') \<and>
   stage_number (hd (path_activities fresh_db)) = current_stage (hd (learning_paths fresh_db)) \<and>
   current_stage (hd (learning_paths fresh_db)) < total_stages (hd (learning_paths fresh_db)) \<and>
   path_stage 1 (perform fresh_db (Update 1 7 completed 1)) = Some 2 \<and>
   path_stage 1 (perform (perform fresh_db (Update 1 7 completed 1)) (Update 1 7 completed 2))
     = Some 2"
proof -
  let ?a = "hd (path_activities fresh_db)"
  let ?p = "hd (learning_paths fresh_db)"
  have 1: "get_activity 1 fresh_db = Some ?a" by (simp add: eval_defs)
  have 2: "get_path (learning_path_id ?a) fresh_db = Some ?p" by (simp add: eval_defs)
  have 3: "get_profile (child_profile_id ?p) fresh_db = Some a_profile"
    by (simp add: fresh_db_def empty_db_def a_profile_def get_profile_def
          generate_learning_path_def Let_def activities_def add_activity_def)
  have 4: "user_id a_profile = 7" by (simp add: a_profile_def)
  have 5: "completed ''status'' = Some (JString ''completed'')" by (simp add: completed_def)
  have 6: "stage_number ?a = current_stage ?p" by (simp add: eval_defs)
  have 7: "current_stage ?p < total_stages ?p" by (simp add: eval_defs)
  have 8: "path_id ?p = 1" "current_stage ?p = 1" by (simp_all add: eval_defs)
  from repeated_completion_advances_once
         [where data = completed and now = 1 and now' = 2, OF 1 2 3 4 5 6 7] 8
  have "path_stage 1 (perform fresh_db (Update 1 7 completed 1)) = Some 2 \<and>
        path_stage 1 (perform (perform fresh_db (Update 1 7 completed 1))
          (Update 1 7 completed 2)) = Some 2"
    by simp
  with 1 2 3 4 5 6 7 show ?thesis by blast
qed

subsection \<open>The percentage\<close>

lemmas percentage_defs = percentage_def int_of_float_def float_mul_def true_divide_def
  float_of_int_def nearest_float_def round_half_even_def bit_length.simps Let_def

lemma percentage_five:
  "percentage 0 5 = 0" "percentage 1 5 = 20" "percentage 2 5 = 40"
  "percentage 3 5 = 60" "percentage 4 5 = 80" "percentage 5 5 = 100"
  by (simp_all add: percentage_defs)

lemma percentage_of_five: "c \<le> 5 \<Longrightarrow> percentage (int c) 5 = 20 * int c"
proof -
  assume "c \<le> 5"
  then have "c = 0 \<or> c = 1 \<or> c = 2 \<or> c = 3 \<or> c = 4 \<or> c = 5" by arith
  then show ?thesis using percentage_five by auto
qed

lemma percentage_29_50: "percentage 29 50 = 57"
  by (simp add: percentage_defs)

lemma recompute_progress_zero: "recompute_progress c 0 now p = p"
  by (simp add: recompute_progress_def)

text \<open>
  A remark on tables that the operations cannot produce. The code divides first, in
  floating point, multiplies by \<open>100\<close> and truncates. On a hand-made path of fifty
  activities with twenty-eight completed, completing the activity of the current stage 29
  makes twenty-nine of fifty: \<open>29 / 50\<close> is the float just below \<open>0.58\<close>, its product with
  \<open>100\<close> rounds to the float just below \<open>58\<close>, and the stored percentage is \<open>57\<close>,
  where the floor of \<open>100 * 29 / 50\<close> is \<open>58\<close>. Generated paths have five activities,
  where the float computation is exact (\<open>percentage_five\<close>).
\<close>

lemma float_truncation_on_fifty:
  "path_progress 1 crowded_db = Some 56 \<and>
   count_completed 1 crowded_db = 28 \<and>
   path_stage 1 crowded_db = Some 29 \<and>
   count_total 1 (perform crowded_db (Update 29 7 completed 1)) = 50 \<and>
   count_completed 1 (perform crowded_db (Update 29 7 completed 1)) = 29 \<and>
   path_progress 1 (perform crowded_db (Update 29 7 completed 1)) = Some 57 \<and>
   (100 * 29) div 50 = (58::int)"
  by code_simp

subsection \<open>Counting the activities of a path\<close>

lemma length_filter_conj_le:
  "length (filter (\<lambda>a. P a \<and> Q a) xs) \<le> length (filter P xs)"
  by (induction xs) (auto simp: le_SucI)

lemma count_completed_le_total: "count_completed k db \<le> count_total k db"
  unfolding count_completed_def count_total_def by (rule length_filter_conj_le)

lemma counts_update_path [simp]:
  "count_total k (update_path k' f db) = count_total k db"
  "count_completed k (update_path k' f db) = count_completed k db"
  by (simp_all add: count_total_def count_completed_def update_path_def)

lemma length_filter_map_same:
  "(\<And>x. P (g x) = P x) \<Longrightarrow> length (filter P (map g xs)) = length (filter P xs)"
  by (induction xs) auto

lemma length_filter_map_mono:
  "(\<And>x. P x \<Longrightarrow> P (g x)) \<Longrightarrow> length (filter P xs) \<le> length (filter P (map g xs))"
  by (induction xs) (auto simp: le_SucI)

lemma count_total_apply_status:
  "count_total k (snd (apply_status activity path data now db)) = count_total k db"
  unfolding count_total_def apply_status_activities
  by (rule length_filter_map_same) simp

lemma count_completed_apply_status:
  "count_completed k db \<le> count_completed k (snd (apply_status activity path data now db))"
  unfolding count_completed_def apply_status_activities
  by (rule length_filter_map_mono) (simp add: status_change_completed)

lemma cascade_progress:
  assumes "frontier_completion activity path data"
    and "get_path (path_id path) db = Some path"
  shows "path_progress (path_id path) (snd (apply_status activity path data now db)) =
     Some (if 0 < count_total (path_id path) (snd (apply_status activity path data now db))
           then percentage
                  (int (count_completed (path_id path)
                          (snd (apply_status activity path data now db))))
                  (int (count_total (path_id path)
                          (snd (apply_status activity path data now db))))
           else progress_percentage path)"
  using assms(2)
  by (simp add: apply_status_cascade [OF assms(1)] Let_def get_path_update_path path_progress_def
        recompute_progress_def)

lemma cascade_other_path:
  assumes "frontier_completion activity path data" and "k \<noteq> path_id path"
  shows "get_path k (snd (apply_status activity path data now db)) = get_path k db"
  using assms(2)
  by (cases "get_path k db")
     (auto simp: apply_status_cascade [OF assms(1)] Let_def get_path_update_path
        dest: get_path_Some)

lemma path_progress_cong:
  "learning_paths db' = learning_paths db \<Longrightarrow> path_progress k db' = path_progress k db"
  by (simp add: path_progress_def get_path_def)

lemma trackedI:
  "count_total k db = 5 \<Longrightarrow> path_progress k db = Some x \<Longrightarrow> 0 \<le> x \<Longrightarrow>
   x \<le> 20 * int (count_completed k db) \<Longrightarrow> tracked k db"
  unfolding tracked_def by blast

lemma trackedE:
  assumes "tracked k db"
  obtains x where "count_total k db = 5" "path_progress k db = Some x" "0 \<le> x"
    "x \<le> 20 * int (count_completed k db)"
  using assms unfolding tracked_def by blast

lemma apply_status_tracked:
  assumes tr: "tracked k db"
    and path: "get_path (path_id path) db = Some path"
  shows "tracked k (snd (apply_status activity path data now db)) \<and>
         (\<exists>x y. path_progress k db = Some x \<and>
                path_progress k (snd (apply_status activity path data now db)) = Some y \<and>
                x \<le> y)"
proof -
  let ?db' = "snd (apply_status activity path data now db)"
  from tr obtain x where total: "count_total k db = 5" and x: "path_progress k db = Some x"
    and x0: "0 \<le> x" and xc: "x \<le> 20 * int (count_completed k db)"
    by (rule trackedE)
  have total': "count_total k ?db' = 5" using total by (simp add: count_total_apply_status)
  have "count_completed k db \<le> count_completed k ?db'"
    by (rule count_completed_apply_status)
  then have mono: "int (count_completed k db) \<le> int (count_completed k ?db')" by simp
  have xc': "x \<le> 20 * int (count_completed k ?db')" using xc mono by linarith
  have le5: "count_completed k ?db' \<le> 5"
    using count_completed_le_total [of k ?db'] total' by simp
  have same: ?thesis if h: "path_progress k ?db' = Some x"
  proof
    show "tracked k ?db'" using total' h x0 xc' by (rule trackedI)
    show "\<exists>x y. path_progress k db = Some x \<and> path_progress k ?db' = Some y \<and> x \<le> y"
      using x h by simp
  qed
  show ?thesis
  proof (cases "frontier_completion activity path data")
    case False
    have "learning_paths ?db' = learning_paths db"
      using False by (rule apply_status_no_cascade)
    then have "path_progress k ?db' = path_progress k db"
      by (rule path_progress_cong)
    then have "path_progress k ?db' = Some x" unfolding x .
    then show ?thesis by (rule same)
  next
    case True
    show ?thesis
    proof (cases "k = path_id path")
      case False
      have "get_path k ?db' = get_path k db"
        using True False by (rule cascade_other_path)
      then have "path_progress k ?db' = path_progress k db"
        unfolding path_progress_def by (rule arg_cong)
      then have "path_progress k ?db' = Some x" unfolding x .
      then show ?thesis by (rule same)
    next
      case k: True
      have pos: "0 < count_total (path_id path) ?db'"
        using total' unfolding k by simp
      have "path_progress (path_id path) ?db' =
              Some (percentage (int (count_completed (path_id path) ?db'))
                      (int (count_total (path_id path) ?db')))"
        using cascade_progress [OF True path, of now] pos by (simp only: if_True)
      then have "path_progress k ?db' = Some (percentage (int (count_completed k ?db')) (int 5))"
        using total' unfolding k by (simp only:)
      moreover have "percentage (int (count_completed k ?db')) (int 5)
                       = 20 * int (count_completed k ?db')"
        using percentage_of_five [OF le5] by simp
      ultimately have y: "path_progress k ?db' = Some (20 * int (count_completed k ?db'))"
        by (simp only:)
      have y0: "0 \<le> 20 * int (count_completed k ?db')" by simp
      show ?thesis
      proof
        show "tracked k ?db'" using total' y y0 by (rule trackedI) simp
        show "\<exists>x y. path_progress k db = Some x \<and> path_progress k ?db' = Some y \<and> x \<le> y"
          using x y xc' by simp
      qed
    qed
  qed
qed

lemma perform_Update_tracked:
  assumes "tracked k db"
  shows "tracked k (perform db (Update aid uid data now)) \<and>
         (\<exists>x y. path_progress k db = Some x \<and>
                path_progress k (perform db (Update aid uid data now)) = Some y \<and> x \<le> y)"
proof (rule perform_Update_cases [of db aid uid data now])
  assume "perform db (Update aid uid data now) = db"
  then show ?thesis using assms by (auto simp: tracked_def)
next
  fix activity path
  assume "get_path (learning_path_id activity) db = Some path"
    and eq: "perform db (Update aid uid data now) = snd (apply_status activity path data now db)"
  then have "get_path (path_id path) db = Some path"
    using get_path_Some [of "learning_path_id activity" db path] by simp
  from apply_status_tracked [OF assms this] show ?thesis unfolding eq .
qed

lemma find_append_None: "find P xs = None \<Longrightarrow> find P (xs @ ys) = find P ys"
  by (induction xs) (auto split: if_splits)

lemma next_id_path:
  "p \<in> set (learning_paths db) \<Longrightarrow> path_id p \<noteq> next_id (map path_id (learning_paths db))"
  using next_id_greater [of "path_id p" "map path_id (learning_paths db)"] by auto

lemma get_path_generate_new:
  "get_path (next_id (map path_id (learning_paths db)))
     (snd (generate_learning_path profile now db)) = Some (fst (generate_learning_path profile now db))"
proof -
  have "find (\<lambda>p. path_id p = next_id (map path_id (learning_paths db))) (learning_paths db) = None"
    using next_id_path [of _ db] by (auto simp: find_None_iff)
  then show ?thesis
    by (simp add: get_path_def generate_paths find_append_None)
qed

lemma get_path_generate_old:
  "get_path k db = Some p \<Longrightarrow> get_path k (snd (generate_learning_path profile now db)) = Some p"
  by (simp add: get_path_def generate_paths find_append_Some)

lemma counts_generate_old:
  assumes "k \<noteq> next_id (map path_id (learning_paths db))"
  shows "count_total k (snd (generate_learning_path profile now db)) = count_total k db"
    and "count_completed k (snd (generate_learning_path profile now db)) = count_completed k db"
proof -
  obtain new where new:
    "path_activities (snd (generate_learning_path profile now db)) = path_activities db @ new"
    "\<forall>a\<in>set new. learning_path_id a = next_id (map path_id (learning_paths db)) \<and>
                  \<not> is_completed a"
    using generate_rows by blast
  have "filter (\<lambda>a. learning_path_id a = k) new = []"
    using new(2) assms by (auto simp: filter_empty_conv)
  then show "count_total k (snd (generate_learning_path profile now db)) = count_total k db"
    by (simp add: count_total_def new(1))
  have "filter (\<lambda>a. learning_path_id a = k \<and> is_completed a) new = []"
    using new(2) by (auto simp: filter_empty_conv)
  then show "count_completed k (snd (generate_learning_path profile now db)) = count_completed k db"
    by (simp add: count_completed_def new(1))
qed

lemma counts_generate_new:
  assumes "foreign_keys db"
  shows "count_total (next_id (map path_id (learning_paths db)))
           (snd (generate_learning_path profile now db)) = 5"
    and "count_completed (next_id (map path_id (learning_paths db)))
           (snd (generate_learning_path profile now db)) = 0"
proof -
  let ?k = "next_id (map path_id (learning_paths db))"
  obtain new where new:
    "path_activities (snd (generate_learning_path profile now db)) = path_activities db @ new"
    "length new = 5"
    "\<forall>a\<in>set new. learning_path_id a = ?k \<and> \<not> is_completed a"
    using generate_rows by blast
  have old: "\<forall>a\<in>set (path_activities db). learning_path_id a \<noteq> ?k"
    using assms next_id_path [of _ db]
    by (fastforce simp: foreign_keys_def list_all_iff)
  then have "filter (\<lambda>a. learning_path_id a = ?k) (path_activities db) = []"
    by (auto simp: filter_empty_conv)
  moreover have "filter (\<lambda>a. learning_path_id a = ?k) new = new"
    using new(3) by (auto simp: filter_id_conv)
  ultimately show "count_total ?k (snd (generate_learning_path profile now db)) = 5"
    by (simp add: count_total_def new(1,2))
  have "filter (\<lambda>a. learning_path_id a = ?k \<and> is_completed a) (path_activities db) = []"
    using old by (auto simp: filter_empty_conv)
  moreover have "filter (\<lambda>a. learning_path_id a = ?k \<and> is_completed a) new = []"
    using new(3) by (auto simp: filter_empty_conv)
  ultimately show "count_completed ?k (snd (generate_learning_path profile now db)) = 0"
    by (simp add: count_completed_def new(1))
qed

lemma generate_tracked_new:
  assumes "foreign_keys db"
  shows "tracked (path_id (fst (generate_learning_path profile now db)))
           (snd (generate_learning_path profile now db))"
proof -
  let ?k = "next_id (map path_id (learning_paths db))"
  let ?db1 = "snd (generate_learning_path profile now db)"
  have id: "path_id (fst (generate_learning_path profile now db)) = ?k" by simp
  have t: "count_total ?k ?db1 = 5" using assms by (rule counts_generate_new(1))
  have c: "count_completed ?k ?db1 = 0" using assms by (rule counts_generate_new(2))
  have "get_path ?k ?db1 = Some (fst (generate_learning_path profile now db))"
    by (rule get_path_generate_new)
  then have p: "path_progress ?k ?db1 = Some 0"
    unfolding path_progress_def by simp
  have "tracked ?k ?db1"
    using t p by (rule trackedI) (simp_all add: c)
  then show ?thesis unfolding id .
qed

lemma perform_Generate_tracked:
  assumes "tracked k db"
  shows "tracked k (perform db (Generate profile now)) \<and>
         (\<exists>x y. path_progress k db = Some x \<and>
                path_progress k (perform db (Generate profile now)) = Some y \<and> x \<le> y)"
proof -
  let ?db1 = "snd (generate_learning_path profile now db)"
  from assms obtain x where total: "count_total k db = 5" and x: "path_progress k db = Some x"
    and x0: "0 \<le> x" and xc: "x \<le> 20 * int (count_completed k db)"
    by (rule trackedE)
  from x obtain p where p: "get_path k db = Some p"
    unfolding path_progress_def by blast
  have k: "k \<noteq> next_id (map path_id (learning_paths db))"
    using get_path_Some [OF p] next_id_path [of p db] by blast
  have "get_path k ?db1 = Some p" using p by (rule get_path_generate_old)
  then have x': "path_progress k ?db1 = Some x"
    using x p unfolding path_progress_def by simp
  have total': "count_total k ?db1 = 5"
    using total counts_generate_old(1) [OF k, of profile now] by simp
  have xc': "x \<le> 20 * int (count_completed k ?db1)"
    using xc counts_generate_old(2) [OF k, of profile now] by simp
  have "tracked k ?db1" using total' x' x0 xc' by (rule trackedI)
  then show ?thesis using x x' by simp
qed

lemma perform_tracked:
  assumes "tracked k db"
  shows "tracked k (perform db op) \<and>
         (\<exists>x y. path_progress k db = Some x \<and> path_progress k (perform db op) = Some y \<and> x \<le> y)"
proof (cases op)
  case (Generate profile now)
  show ?thesis unfolding Generate using assms by (rule perform_Generate_tracked)
next
  case (Update aid uid data now)
  show ?thesis unfolding Update using assms by (rule perform_Update_tracked)
qed

lemma perform_all_tracked:
  assumes "tracked k db"
  shows "tracked k (perform_all ops db) \<and>
         (\<exists>x y. path_progress k db = Some x \<and> path_progress k (perform_all ops db) = Some y \<and> x \<le> y)"
  using assms unfolding perform_all_def
proof (induction ops arbitrary: db)
  case Nil
  from Nil obtain x where "path_progress k db = Some x" by (rule trackedE)
  then show ?case using Nil by simp
next
  case (Cons op ops)
  from perform_tracked [OF Cons.prems, of op]
  obtain x y where step: "tracked k (perform db op)" "path_progress k db = Some x"
    "path_progress k (perform db op) = Some y" "x \<le> y"
    by blast
  from Cons.IH [OF step(1)] obtain y' z where rest:
    "tracked k (foldl perform (perform db op) ops)"
    "path_progress k (perform db op) = Some y'"
    "path_progress k (foldl perform (perform db op) ops) = Some z" "y' \<le> z"
    by blast
  have "y' = y" using rest(2) step(3) by simp
  then have "x \<le> z" using step(4) rest(4) by simp
  then show ?case using rest(1,3) step(2) by simp
qed

lemma perform_all_append: "perform_all (ops @ ops') db = perform_all ops' (perform_all ops db)"
  by (simp add: perform_all_def)

lemma tracked_bounds:
  assumes "tracked k db"
  shows "\<exists>x. path_progress k db = Some x \<and> 0 \<le> x \<and> x \<le> 100"
proof -
  from assms obtain x where total: "count_total k db = 5" and x: "path_progress k db = Some x"
    and x0: "0 \<le> x" and xc: "x \<le> 20 * int (count_completed k db)"
    by (rule trackedE)
  have "count_completed k db \<le> 5" using count_completed_le_total [of k db] total by simp
  then have "int (count_completed k db) \<le> 5" by simp
  then have "x \<le> 100" using xc by linarith
  then show ?thesis using x x0 by simp
qed

lemma round_fifth: "round (100 * real c / real 5) = 20 * int c"
proof -
  have "100 * real c / real 5 = of_int (20 * int c)" by simp
  then show ?thesis by (simp only: round_of_int)
qed

subsection \<open>The percentage of a generated path\<close>

text \<open>
  C10. Take a database whose activities all belong to existing paths, and generate a path in
  it. Along every sequence of operations that follows (update requests, and generations of
  other paths), the \<open>progress_percentage\<close> of that path never drops: its value after any
  prefix of the sequence is at most its value after the whole sequence, and it is always
  between \<open>0\<close> and \<open>100\<close>.
\<close>


theorem progress_never_drops:
  assumes "foreign_keys db"
  shows "(case generate_learning_path profile now db of (path, db1) \<Rightarrow>
           \<exists>x y. path_progress (path_id path) (perform_all ops db1) = Some x \<and>
                 path_progress (path_id path) (perform_all (ops @ ops') db1) = Some y \<and>
                 0 \<le> x \<and> x \<le> y \<and> y \<le> 100)"
proof -
  let ?path = "fst (generate_learning_path profile now db)"
  let ?db1 = "snd (generate_learning_path profile now db)"
  have t0: "tracked (path_id ?path) ?db1" using assms by (rule generate_tracked_new)
  have t1: "tracked (path_id ?path) (perform_all ops ?db1)"
    using perform_all_tracked [OF t0, of ops] by (rule conjunct1)
  from perform_all_tracked [OF t1, of ops']
  obtain x y where t2: "tracked (path_id ?path) (perform_all ops' (perform_all ops ?db1))"
    and x: "path_progress (path_id ?path) (perform_all ops ?db1) = Some x"
    and y: "path_progress (path_id ?path) (perform_all ops' (perform_all ops ?db1)) = Some y"
    and xy: "x \<le> y"
    by blast
  from tracked_bounds [OF t1] x have x0: "0 \<le> x" by simp
  from tracked_bounds [OF t2] y have y100: "y \<le> 100" by simp
  have "\<exists>x y. path_progress (path_id ?path) (perform_all ops ?db1) = Some x \<and>
              path_progress (path_id ?path) (perform_all (ops @ ops') ?db1) = Some y \<and>
              0 \<le> x \<and> x \<le> y \<and> y \<le> 100"
    unfolding perform_all_append using x y x0 xy y100 by simp
  then show ?thesis by (simp add: case_prod_beta)
qed

theorem progress_never_drops_witness:
  "foreign_keys fresh_db \<and>
   (\<exists>x y. path_progress 2
             (perform_all [Update 6 7 completed 2, Update 8 7 completed 3]
                (snd (generate_learning_path a_profile 1 fresh_db))) = Some x \<and>
          path_progress 2
             (perform_all ([Update 6 7 completed 2, Update 8 7 completed 3] @
                           [Update 7 7 completed 4, Update 6 7 pending 5])
                (snd (generate_learning_path a_profile 1 fresh_db))) = Some y \<and>
          0 \<le> x \<and> x \<le> y \<and> y \<le> 100)"
proof -
  have fk: "foreign_keys fresh_db"
    by (simp add: eval_defs foreign_keys_def)
  have id: "path_id (fst (generate_learning_path a_profile 1 fresh_db)) = 2"
    by (simp add: eval_defs)
  from progress_never_drops
      [where profile = a_profile and now = 1
         and ops = "[Update 6 7 completed 2, Update 8 7 completed 3]"
         and ops' = "[Update 7 7 completed 4, Update 6 7 pending 5]", OF fk]
  show ?thesis using fk unfolding case_prod_beta id by blast
qed

text \<open>
  C6, as the code has it. The percentage equals \<open>round(100 * completed / total)\<close> right
  after generation (no activity completed, percentage \<open>0\<close>), and right after every update
  request that completes the activity of the current stage on a path of five activities.
  Requests that do not complete the activity of the current stage leave the percentage as it
  was, also when they change the count of completed activities.
\<close>


theorem progress_is_the_rounded_ratio:
  "(foreign_keys db \<longrightarrow>
      (case generate_learning_path profile now db of (new_path, db1) \<Rightarrow>
         count_total (path_id new_path) db1 = 5 \<and>
         path_progress (path_id new_path) db1 =
           Some (round (100 * real (count_completed (path_id new_path) db1)
                          / real (count_total (path_id new_path) db1))))) \<and>
   (get_activity aid db = Some activity \<longrightarrow>
    get_path (learning_path_id activity) db = Some path \<longrightarrow>
    data ''status'' = Some (JString ''completed'') \<longrightarrow>
    stage_number activity = current_stage path \<longrightarrow>
    count_total (path_id path) db = 5 \<longrightarrow>
    update_path_activity aid uid data now db = Inr (activity', db') \<longrightarrow>
      path_progress (path_id path) db' =
        Some (round (100 * real (count_completed (path_id path) db')
                       / real (count_total (path_id path) db'))))"
proof (intro conjI impI)
  assume fk: "foreign_keys db"
  let ?k = "next_id (map path_id (learning_paths db))"
  let ?db1 = "snd (generate_learning_path profile now db)"
  have id: "path_id (fst (generate_learning_path profile now db)) = ?k" by simp
  have t: "count_total ?k ?db1 = 5" using fk by (rule counts_generate_new(1))
  have c: "count_completed ?k ?db1 = 0" using fk by (rule counts_generate_new(2))
  have "get_path ?k ?db1 = Some (fst (generate_learning_path profile now db))"
    by (rule get_path_generate_new)
  then have p: "path_progress ?k ?db1 = Some 0"
    unfolding path_progress_def by simp
  show "case generate_learning_path profile now db of (new_path, db1) \<Rightarrow>
         count_total (path_id new_path) db1 = 5 \<and>
         path_progress (path_id new_path) db1 =
           Some (round (100 * real (count_completed (path_id new_path) db1)
                          / real (count_total (path_id new_path) db1)))"
    unfolding case_prod_beta id using t c p by simp
next
  assume a: "get_activity aid db = Some activity"
    and p: "get_path (learning_path_id activity) db = Some path"
    and d: "data ''status'' = Some (JString ''completed'')"
    and st: "stage_number activity = current_stage path"
    and five: "count_total (path_id path) db = 5"
    and r: "update_path_activity aid uid data now db = Inr (activity', db')"
  let ?db' = "snd (apply_status activity path data now db)"
  let ?k = "path_id path"
  from r obtain a0 p0 where "get_activity aid db = Some a0"
    "get_path (learning_path_id a0) db = Some p0"
    and eq: "(activity', db') = apply_status a0 p0 data now db"
    by (rule update_path_activity_Inr)
  with a p have same: "a0 = activity" "p0 = path" by simp_all
  have db': "db' = ?db'" using eq same by (metis snd_conv)
  have fc: "frontier_completion activity path data"
    using d st by (simp add: frontier_completion_def)
  have path: "get_path ?k db = Some path"
    using p get_path_Some [OF p] by simp
  have total': "count_total ?k ?db' = 5" using five by (simp add: count_total_apply_status)
  have le5: "count_completed ?k ?db' \<le> 5"
    using count_completed_le_total [of ?k ?db'] total' by simp
  have pos: "0 < count_total ?k ?db'" using total' by simp
  have "path_progress ?k ?db' =
          Some (percentage (int (count_completed ?k ?db')) (int (count_total ?k ?db')))"
    using cascade_progress [OF fc path, of now] pos by (simp only: if_True)
  then have "path_progress ?k ?db' = Some (percentage (int (count_completed ?k ?db')) (int 5))"
    using total' by (simp only:)
  moreover have "percentage (int (count_completed ?k ?db')) (int 5)
                   = 20 * int (count_completed ?k ?db')"
    using percentage_of_five [OF le5] by simp
  ultimately have y: "path_progress ?k ?db' = Some (20 * int (count_completed ?k ?db'))"
    by (simp only:)
  show "path_progress ?k db' =
        Some (round (100 * real (count_completed ?k db') / real (count_total ?k db')))"
    unfolding db' y total' round_fifth ..
qed

theorem progress_is_the_rounded_ratio_counterexample:
  "path_progress 1 (perform fresh_db (Update 3 7 completed 1)) = Some 0 \<and>
   count_completed 1 (perform fresh_db (Update 3 7 completed 1)) = 1 \<and>
   count_total 1 (perform fresh_db (Update 3 7 completed 1)) = 5 \<and>
   round (100 * real 1 / real 5) = (20::int)"
proof -
  have "path_progress 1 (perform fresh_db (Update 3 7 completed 1)) = Some 0 \<and>
        count_completed 1 (perform fresh_db (Update 3 7 completed 1)) = 1 \<and>
        count_total 1 (perform fresh_db (Update 3 7 completed 1)) = 5"
    by code_simp
  moreover have "round (100 * real 1 / real 5) = (20::int)"
    using round_fifth [of 1] by simp
  ultimately show ?thesis by simp
qed

theorem progress_is_the_rounded_ratio_witness:
  "foreign_keys fresh_db \<and>
   count_total 2 (snd (generate_learning_path a_profile 1 fresh_db)) = 5 \<and>
   path_progress 2 (snd (generate_learning_path a_profile 1 fresh_db)) =
     Some (round (100 * real (count_completed 2 (snd (generate_learning_path a_profile 1 fresh_db)))
                    / real (count_total 2 (snd (generate_learning_path a_profile 1 fresh_db))))) \<and>
   get_activity 1 fresh_db = Some (hd (path_activities fresh_db)) \<and>
   get_path (learning_path_id (hd (path_activities fresh_db))) fresh_db
     = Some (hd (learning_paths fresh_db)) \<and>
   completed ''status'' = Some (JString ''completed'') \<and>
   stage_number (hd (path_activities fresh_db)) = current_stage (hd (learning_paths fresh_db)) \<and>
   count_total (path_id (hd (learning_paths fresh_db))) fresh_db = 5 \<and>
   update_path_activity 1 7 completed 1 fresh_db
     = Inr (apply_status (hd (path_activities fresh_db)) (hd (learning_paths fresh_db))
              completed 1 fresh_db) \<and>
   path_progress 1 (perform fresh_db (Update 1 7 completed 1)) =
     Some (round (100 * real (count_completed 1 (perform fresh_db (Update 1 7 completed 1)))
                    / real (count_total 1 (perform fresh_db (Update 1 7 completed 1)))))"
proof -
  let ?a = "hd (path_activities fresh_db)"
  let ?p = "hd (learning_paths fresh_db)"
  let ?r = "apply_status ?a ?p completed 1 fresh_db"
  let ?g = "generate_learning_path a_profile 1 fresh_db"
  have fk: "foreign_keys fresh_db" by (simp add: eval_defs foreign_keys_def)
  have id: "path_id (fst ?g) = 2" by (simp add: eval_defs)
  have 1: "get_activity 1 fresh_db = Some ?a" by (simp add: eval_defs)
  have 2: "get_path (learning_path_id ?a) fresh_db = Some ?p" by (simp add: eval_defs)
  have 3: "completed ''status'' = Some (JString ''completed'')" by (simp add: completed_def)
  have 4: "stage_number ?a = current_stage ?p" by (simp add: eval_defs)
  have 5: "count_total (path_id ?p) fresh_db = 5" by (simp add: eval_defs)
  have 6: "update_path_activity 1 7 completed 1 fresh_db = Inr (fst ?r, snd ?r)"
    unfolding update_path_activity_def using 1 2
    by (simp add: fresh_db_def empty_db_def a_profile_def get_profile_def
          generate_learning_path_def Let_def activities_def add_activity_def)
  have 7: "path_id ?p = 1" by (simp add: eval_defs)
  have 8: "perform fresh_db (Update 1 7 completed 1) = snd ?r" by (rule perform_fresh)
  note inst = progress_is_the_rounded_ratio
      [where db = fresh_db and profile = a_profile and now = 1 and aid = 1
         and activity = ?a and path = ?p and data = completed and uid = 7
         and activity' = "fst ?r" and db' = "snd ?r"]
  from inst fk have g: "count_total 2 (snd ?g) = 5 \<and>
     path_progress 2 (snd ?g) =
       Some (round (100 * real (count_completed 2 (snd ?g)) / real (count_total 2 (snd ?g))))"
    unfolding case_prod_beta id by blast
  from inst 1 2 3 4 5 6 have u: "path_progress (path_id ?p) (snd ?r) =
       Some (round (100 * real (count_completed (path_id ?p) (snd ?r))
                      / real (count_total (path_id ?p) (snd ?r))))"
    by blast
  show ?thesis
    using fk g 1 2 3 4 5 6 u unfolding 7 8 by simp
qed

subsection \<open>The percentage a cascade stores\<close>

lemma five_per_path_initial:
  "learning_paths db = [] \<Longrightarrow> path_activities db = [] \<Longrightarrow> five_per_path db"
  by (simp add: five_per_path_def foreign_keys_def)

lemma generate_foreign_keys:
  assumes "foreign_keys db"
  shows "foreign_keys (snd (generate_learning_path profile now db))"
proof -
  obtain new where new:
    "path_activities (snd (generate_learning_path profile now db)) = path_activities db @ new"
    "\<forall>a\<in>set new. learning_path_id a = next_id (map path_id (learning_paths db)) \<and>
                  \<not> is_completed a"
    using generate_rows by blast
  show ?thesis
    using assms new(2)
    by (auto simp: foreign_keys_def list_all_iff new(1) generate_paths)
qed

lemma generate_five_per_path:
  assumes "five_per_path db"
  shows "five_per_path (snd (generate_learning_path profile now db))"
proof -
  let ?db1 = "snd (generate_learning_path profile now db)"
  let ?k = "next_id (map path_id (learning_paths db))"
  have fk: "foreign_keys db" using assms by (simp add: five_per_path_def)
  have old: "count_total (path_id p) ?db1 = 5" if "p \<in> set (learning_paths db)" for p
  proof -
    have "path_id p \<noteq> ?k" using that by (rule next_id_path)
    then have "count_total (path_id p) ?db1 = count_total (path_id p) db"
      by (rule counts_generate_old(1))
    then show ?thesis using assms that by (simp add: five_per_path_def list_all_iff)
  qed
  have new: "count_total (path_id (fst (generate_learning_path profile now db))) ?db1 = 5"
    using counts_generate_new(1) [OF fk, of profile now] by simp
  have "list_all (\<lambda>p. count_total (path_id p) ?db1 = 5) (learning_paths ?db1)"
    unfolding generate_paths list_all_iff using old new by auto
  then show ?thesis
    using generate_foreign_keys [OF fk] by (simp add: five_per_path_def)
qed

lemma apply_status_five_per_path:
  assumes "five_per_path db"
  shows "five_per_path (snd (apply_status activity path data now db))"
proof -
  let ?db' = "snd (apply_status activity path data now db)"
  have ids: "map path_id (learning_paths ?db') = map path_id (learning_paths db)"
    by (rule apply_status_path_ids)
  then have set_ids: "path_id ` set (learning_paths ?db') = path_id ` set (learning_paths db)"
    by (metis set_map)
  have old_fk: "learning_path_id a \<in> path_id ` set (learning_paths db)"
    if "a \<in> set (path_activities db)" for a
    using assms that by (auto simp: five_per_path_def foreign_keys_def list_all_iff)
  have "learning_path_id a' \<in> path_id ` set (learning_paths ?db')"
    if "a' \<in> set (path_activities ?db')" for a'
  proof -
    from that obtain a where a: "a \<in> set (path_activities db)"
      and a': "a' = (if activity_id a = activity_id activity then status_change data a else a)"
      unfolding apply_status_activities by auto
    have "learning_path_id a' = learning_path_id a" unfolding a' by simp
    then show ?thesis using old_fk [OF a] set_ids by simp
  qed
  then have fk: "foreign_keys ?db'"
    by (simp add: foreign_keys_def list_all_iff)
  have "count_total (path_id p') ?db' = 5" if "p' \<in> set (learning_paths ?db')" for p'
  proof -
    from that set_ids obtain q where q: "q \<in> set (learning_paths db)" "path_id q = path_id p'"
      by (metis imageE imageI)
    then have "count_total (path_id p') db = 5"
      using assms by (auto simp: five_per_path_def list_all_iff)
    then show ?thesis by (simp add: count_total_apply_status)
  qed
  then show ?thesis using fk by (simp add: five_per_path_def list_all_iff)
qed

lemma perform_five_per_path:
  assumes "five_per_path db"
  shows "five_per_path (perform db op)"
proof (cases op)
  case (Generate profile now)
  show ?thesis unfolding Generate using assms by (simp add: generate_five_per_path)
next
  case (Update aid uid data now)
  show ?thesis unfolding Update
    by (rule perform_Update_cases [of db aid uid data now])
       (simp_all add: assms apply_status_five_per_path)
qed

lemma perform_all_five_per_path:
  "five_per_path db \<Longrightarrow> five_per_path (perform_all ops db)"
  unfolding perform_all_def
  by (induction ops arbitrary: db) (simp_all add: perform_five_per_path)

lemma floor_of_fifths: "(100 * int c) div int 5 = 20 * int c"
  by simp

text \<open>
  C3. Take any database that the two operations produce from empty tables of paths and
  activities. Whenever an update request there triggers the update of the path (status
  \<open>completed\<close> on the activity of the path's current stage), the path's total activity
  count is positive and its \<open>progress_percentage\<close> is set to the floor of
  \<open>100 * completed / total\<close>, both counts taken after the request. With a total of zero
  the recomputation leaves the path as it is: the division is not evaluated. On a freshly
  generated path, completing the activity of stage 1 gives \<open>20\<close>.
\<close>

theorem cascade_stores_the_floor:
  assumes "learning_paths initial = []" and "path_activities initial = []"
    and "get_activity aid (perform_all ops initial) = Some activity"
    and "get_path (learning_path_id activity) (perform_all ops initial) = Some path"
    and "data ''status'' = Some (JString ''completed'')"
    and "stage_number activity = current_stage path"
    and "update_path_activity aid uid data now (perform_all ops initial) = Inr (activity', db')"
  shows "0 < count_total (path_id path) db' \<and>
         path_progress (path_id path) db' =
           Some ((100 * int (count_completed (path_id path) db'))
                   div int (count_total (path_id path) db')) \<and>
         recompute_progress completed_activities 0 now' p = p"
proof -
  let ?db = "perform_all ops initial"
  let ?db' = "snd (apply_status activity path data now ?db)"
  let ?k = "path_id path"
  have inv: "five_per_path ?db"
    using assms(1,2) by (intro perform_all_five_per_path five_per_path_initial)
  have mem: "path \<in> set (learning_paths ?db)" and path: "get_path ?k ?db = Some path"
    using get_path_Some [OF assms(4)] assms(4) by simp_all
  have five: "count_total ?k ?db = 5"
    using inv mem by (simp add: five_per_path_def list_all_iff)
  from assms(7) obtain a0 p0 where "get_activity aid ?db = Some a0"
    "get_path (learning_path_id a0) ?db = Some p0"
    and eq: "(activity', db') = apply_status a0 p0 data now ?db"
    by (rule update_path_activity_Inr)
  with assms(3,4) have same: "a0 = activity" "p0 = path" by simp_all
  have db': "db' = ?db'" using eq same by (metis snd_conv)
  have fc: "frontier_completion activity path data"
    using assms(5,6) by (simp add: frontier_completion_def)
  have total': "count_total ?k ?db' = 5" using five by (simp add: count_total_apply_status)
  have le5: "count_completed ?k ?db' \<le> 5"
    using count_completed_le_total [of ?k ?db'] total' by simp
  have pos: "0 < count_total ?k ?db'" using total' by simp
  have "path_progress ?k ?db' =
          Some (percentage (int (count_completed ?k ?db')) (int (count_total ?k ?db')))"
    using cascade_progress [OF fc path, of now] pos by (simp only: if_True)
  then have "path_progress ?k ?db' = Some (percentage (int (count_completed ?k ?db')) (int 5))"
    using total' by (simp only:)
  moreover have "percentage (int (count_completed ?k ?db')) (int 5)
                   = 20 * int (count_completed ?k ?db')"
    using percentage_of_five [OF le5] by simp
  ultimately have y: "path_progress ?k ?db' = Some (20 * int (count_completed ?k ?db'))"
    by (simp only:)
  have "path_progress ?k db' =
          Some ((100 * int (count_completed ?k db')) div int (count_total ?k db'))"
    unfolding db' y total' floor_of_fifths ..
  moreover have "0 < count_total ?k db'" unfolding db' by (rule pos)
  moreover have "recompute_progress completed_activities 0 now' p = p"
    by (rule recompute_progress_zero)
  ultimately show ?thesis by simp
qed

lemma perform_all_generate: "perform_all [Generate a_profile 0] empty_db = fresh_db"
  by (simp add: perform_all_def fresh_db_def)

theorem cascade_stores_the_floor_witness:
  "learning_paths empty_db = [] \<and> path_activities empty_db = [] \<and>
   get_activity 1 (perform_all [Generate a_profile 0] empty_db)
     = Some (hd (path_activities fresh_db)) \<and>
   get_path (learning_path_id (hd (path_activities fresh_db)))
       (perform_all [Generate a_profile 0] empty_db)
     = Some (hd (learning_paths fresh_db)) \<and>
   completed ''status'' = Some (JString ''completed'') \<and>
   stage_number (hd (path_activities fresh_db)) = current_stage (hd (learning_paths fresh_db)) \<and>
   update_path_activity 1 7 completed 1 (perform_all [Generate a_profile 0] empty_db)
     = Inr (apply_status (hd (path_activities fresh_db)) (hd (learning_paths fresh_db))
              completed 1 fresh_db) \<and>
   count_completed 1 (perform fresh_db (Update 1 7 completed 1)) = 1 \<and>
   count_total 1 (perform fresh_db (Update 1 7 completed 1)) = 5 \<and>
   path_progress 1 (perform fresh_db (Update 1 7 completed 1)) = Some 20"
proof -
  let ?a = "hd (path_activities fresh_db)"
  let ?p = "hd (learning_paths fresh_db)"
  let ?r = "apply_status ?a ?p completed 1 fresh_db"
  have e1: "learning_paths empty_db = []" and e2: "path_activities empty_db = []"
    by (simp_all add: empty_db_def)
  have 1: "get_activity 1 (perform_all [Generate a_profile 0] empty_db) = Some ?a"
    unfolding perform_all_generate by (simp add: eval_defs)
  have 2: "get_path (learning_path_id ?a) (perform_all [Generate a_profile 0] empty_db) = Some ?p"
    unfolding perform_all_generate by (simp add: eval_defs)
  have 3: "completed ''status'' = Some (JString ''completed'')" by (simp add: completed_def)
  have 4: "stage_number ?a = current_stage ?p" by (simp add: eval_defs)
  have 5: "update_path_activity 1 7 completed 1 (perform_all [Generate a_profile 0] empty_db)
             = Inr (fst ?r, snd ?r)"
    unfolding update_path_activity_def using 1 2 unfolding perform_all_generate
    by (simp add: fresh_db_def empty_db_def a_profile_def get_profile_def
          generate_learning_path_def Let_def activities_def add_activity_def)
  have 7: "path_id ?p = 1" by (simp add: eval_defs)
  have 8: "perform fresh_db (Update 1 7 completed 1) = snd ?r" by (rule perform_fresh)
  have c: "count_completed 1 (snd ?r) = 1" and t: "count_total 1 (snd ?r) = 5"
    unfolding 8 [symmetric] by code_simp+
  from cascade_stores_the_floor
         [where data = completed and initial = empty_db and ops = "[Generate a_profile 0]"
            and now = 1 and db' = "snd ?r", OF e1 e2 1 2 3 4 5]
  have "path_progress 1 (snd ?r) = Some ((100 * int 1) div int 5)"
    unfolding 7 c t by blast
  then have "path_progress 1 (snd ?r) = Some 20" by simp
  then show ?thesis
    using e1 e2 1 2 3 4 5 c t unfolding 8 by simp
qed

end
